theory Spec2Isabelle
  imports Main
begin

section \<open>tidy-exit: the shutdown coordinator of \<^verbatim>\<open>src/lib/tidy-exit.js\<close>\<close>

text \<open>
  The module keeps its state in module-level variables and talks to three
  collaborators: the Node \<^verbatim>\<open>process\<close> object (signal listeners,
  \<^verbatim>\<open>process.exit\<close>), the timer queue (\<^verbatim>\<open>setTimeout\<close>,
  \<^verbatim>\<open>clearTimeout\<close>) and the application's own callbacks. The embedding
  threads one record through every function: the module variables under their
  source names, followed by the part of the environment the module reads and writes.
\<close>

subsection \<open>JavaScript values\<close>

text \<open>
  Timeouts and handler numbers are JavaScript numbers that may be missing
  (\<^verbatim>\<open>undefined\<close>) or \<^verbatim>\<open>null\<close>. Numbers are modelled as integers
  (milliseconds, slot numbers).
\<close>

datatype jsval = Undefined | Null | Num int

text \<open>Truthiness, as tested by \<^verbatim>\<open>if (x)\<close> and \<^verbatim>\<open>!x\<close>.\<close>

fun truthy :: "jsval \<Rightarrow> bool" where
  "truthy Undefined = False"
| "truthy Null = False"
| "truthy (Num n) = (n \<noteq> 0)"

text \<open>\<^verbatim>\<open>ToNumber\<close>: \<^verbatim>\<open>undefined\<close> becomes NaN (\<open>None\<close>), \<^verbatim>\<open>null\<close> becomes 0.\<close>

fun to_number :: "jsval \<Rightarrow> int option" where
  "to_number Undefined = None"
| "to_number Null = Some 0"
| "to_number (Num n) = Some n"

text \<open>The relational operators; a comparison with NaN is false.\<close>

definition js_gt :: "jsval \<Rightarrow> jsval \<Rightarrow> bool" where
  "js_gt a b = (case (to_number a, to_number b) of
                  (Some x, Some y) \<Rightarrow> y < x
                | _ \<Rightarrow> False)"

definition js_le :: "jsval \<Rightarrow> jsval \<Rightarrow> bool" where
  "js_le a b = (case (to_number a, to_number b) of
                  (Some x, Some y) \<Rightarrow> x \<le> y
                | _ \<Rightarrow> False)"

text \<open>
  The payload of a \<^verbatim>\<open>process\<close> event: what \<^verbatim>\<open>process.emit(name, payload)\<close>
  or an inter-process message can carry.
\<close>

datatype payload =
    PUndefined
  | PNull
  | PBool bool
  | PNum int
  | PStr string
  | PArr "payload list"
  | PObj

fun nat_to_string :: "nat \<Rightarrow> string" where
  "nat_to_string n =
     (if n < 10 then [''0123456789'' ! n]
      else nat_to_string (n div 10) @ [''0123456789'' ! (n mod 10)])"

definition int_to_string :: "int \<Rightarrow> string" where
  "int_to_string i = (if i < 0 then ''-'' @ nat_to_string (nat (- i)) else nat_to_string (nat i))"

fun join_comma :: "string list \<Rightarrow> string" where
  "join_comma [] = []"
| "join_comma [x] = x"
| "join_comma (x # y # ys) = x @ '','' @ join_comma (y # ys)"

text \<open>
  \<^verbatim>\<open>ToString\<close>. An array is joined with commas, its \<^verbatim>\<open>null\<close> and
  \<^verbatim>\<open>undefined\<close> elements giving the empty string; a plain object gives
  \<^verbatim>\<open>[object Object]\<close>.
\<close>

fun js_to_string :: "payload \<Rightarrow> string" where
  "js_to_string PUndefined = ''undefined''"
| "js_to_string PNull = ''null''"
| "js_to_string (PBool b) = (if b then ''true'' else ''false'')"
| "js_to_string (PNum i) = int_to_string i"
| "js_to_string (PStr s) = s"
| "js_to_string (PArr xs) =
     join_comma (map (\<lambda>x. case x of PUndefined \<Rightarrow> [] | PNull \<Rightarrow> [] | _ \<Rightarrow> js_to_string x) xs)"
| "js_to_string PObj = ''[object Object]''"

text \<open>
  \<^verbatim>\<open>message == 'shutdown'\<close>, the loose comparison of a payload with the string
  \<^verbatim>\<open>'shutdown'\<close>. A string is compared as it is; a number or a boolean is compared
  with \<^verbatim>\<open>ToNumber('shutdown')\<close>, which is NaN; \<^verbatim>\<open>null\<close> and
  \<^verbatim>\<open>undefined\<close> equal only each other; an object is converted to a primitive,
  here its string, first.
\<close>

fun loose_eq_shutdown :: "payload \<Rightarrow> bool" where
  "loose_eq_shutdown (PStr s) = (s = ''shutdown'')"
| "loose_eq_shutdown (PArr xs) = (js_to_string (PArr xs) = ''shutdown'')"
| "loose_eq_shutdown PObj = (js_to_string PObj = ''shutdown'')"
| "loose_eq_shutdown _ = False"

subsection \<open>Configuration\<close>

datatype signal = Message | SIGTERM | SIGINT | SIGBREAK

definition SYSTEM_EXIT_SIGNALS :: "signal list" where
  "SYSTEM_EXIT_SIGNALS = [SIGTERM, SIGINT, SIGBREAK]"

fun signal_name :: "signal \<Rightarrow> string" where
  "signal_name Message = ''message''"
| "signal_name SIGTERM = ''SIGTERM''"
| "signal_name SIGINT = ''SIGINT''"
| "signal_name SIGBREAK = ''SIGBREAK''"

definition DEFAULT_GRACEFUL_TIMEOUT :: int where
  "DEFAULT_GRACEFUL_TIMEOUT = 2 * 60 * 1000"

subsection \<open>State\<close>

text \<open>
  The callbacks bound on the \<^verbatim>\<open>tidyExit\<close> event. An application callback is
  opaque code; it is modelled by what the coordinator can observe of it, the number of
  times it calls its completion callback before it returns (later calls arrive as
  separate events). It is taken not to throw and not to call the module's interface
  while it runs. The other three are the closures of the module itself:
  \<^verbatim>\<open>_defaultExitHandler\<close>, the one \<^verbatim>\<open>hookExpressApp\<close> registers for an app
  and the one \<^verbatim>\<open>hookHttpServer\<close> registers for a server, which hands its
  completion callback to \<^verbatim>\<open>server.close\<close>.
\<close>

datatype handler =
    AppHandler nat
  | DefaultExitHandler
  | ExpressAppHandler nat
  | HttpServerHandler nat

datatype task = Task handler "string option"

datatype logger = DefaultLogger | CustomLogger nat

datatype log_entry =
    GracefulExitTriggered payload "string option"
  | InvalidCallbackHandlerNumber jsval
  | TimedOutWaiting
  | RemoveHandlerError signal

record express_app =
  tidy_exit_state :: "bool option"
  middleware :: nat

datatype request_listener = PlainListener | ExpressListener nat

record http_server =
  request_listeners :: "request_listener list"
  close_callbacks :: "nat list"

text \<open>
  The first ten fields are the module variables. \<^verbatim>\<open>tidy_exit_event\<close> is an
  \<^verbatim>\<open>EventEmitter\<close> with two event names: \<open>tidyExit_listeners\<close> are its
  listeners for \<^verbatim>\<open>tidyExit\<close> (all bound with \<^verbatim>\<open>once\<close>), and
  \<open>done_listeners\<close> counts its listeners for \<^verbatim>\<open>done\<close>, which are all the
  function \<^verbatim>\<open>_checkHandlersDone\<close>. \<open>exit_signal_handlers\<close> is \<open>None\<close>
  while the variable is undefined; a signal maps to \<open>None\<close> when the property is
  missing or \<^verbatim>\<open>null\<close>. A listener closure is identified by a number.

  The remaining fields are the environment: the listeners the module has bound on
  \<^verbatim>\<open>process\<close>, the pending timers, and the traces of the calls to
  \<^verbatim>\<open>process.exit\<close>, to \<^verbatim>\<open>log\<close>, to the application callbacks (with the
  slot number their completion callback carries) and of the \<^verbatim>\<open>tidyExit\<close>
  broadcasts. \<open>remove_throws\<close> lists the signals for which \<^verbatim>\<open>process.removeListener\<close>
  throws when the listener is not bound.
\<close>

record state =
  log_fn :: logger
  tidyExit_listeners :: "task list"
  done_listeners :: nat
  registered_handlers_count :: nat
  exit_signal_handlers :: "(signal \<rightharpoonup> nat list) option"
  listening_to_exit :: bool
  handler_callback_registry :: "nat list"
  max_timeout :: jsval
  max_handler_timeout :: jsval
  default_exit_timer :: "nat option"
  process_listeners :: "(signal \<times> nat) list"
  next_listener :: nat
  timers :: "(nat \<times> jsval) list"
  next_timer :: nat
  exit_calls :: "nat list"
  log_calls :: "log_entry list"
  invocations :: "(handler \<times> nat) list"
  broadcasts :: "payload list"
  apps :: "nat \<Rightarrow> express_app"
  servers :: "nat \<Rightarrow> http_server"
  remove_throws :: "signal list"

subsection \<open>Environment primitives\<close>

definition log :: "log_entry \<Rightarrow> state \<Rightarrow> state" where
  "log e s = s\<lparr>log_calls := log_calls s @ [e]\<rparr>"

definition process_exit :: "nat \<Rightarrow> state \<Rightarrow> state" where
  "process_exit code s = s\<lparr>exit_calls := exit_calls s @ [code]\<rparr>"

text \<open>
  \<^verbatim>\<open>process.exit\<close> ends the process: once it has been called, no further listener,
  callback or timer runs. The loops over listeners and the events below stop at a state
  that has exited; the functions that call \<^verbatim>\<open>process.exit\<close> themselves are
  written as the source has them.
\<close>

definition exited :: "state \<Rightarrow> bool" where
  "exited s = (exit_calls s \<noteq> [])"

definition setTimeout :: "jsval \<Rightarrow> state \<Rightarrow> nat \<times> state" where
  "setTimeout delay s =
     (next_timer s, s\<lparr>timers := timers s @ [(next_timer s, delay)], next_timer := Suc (next_timer s)\<rparr>)"

definition clearTimeout :: "nat option \<Rightarrow> state \<Rightarrow> state" where
  "clearTimeout h s =
     (case h of
        None \<Rightarrow> s
      | Some t \<Rightarrow> s\<lparr>timers := filter (\<lambda>p. fst p \<noteq> t) (timers s)\<rparr>)"

subsection \<open>Timeout policy\<close>

definition getTimeout :: "state \<Rightarrow> jsval" where
  "getTimeout s =
     (if truthy (max_handler_timeout s)
         \<and> (\<not> truthy (max_timeout s) \<or> js_gt (max_timeout s) (max_handler_timeout s))
      then max_handler_timeout s
      else if truthy (max_timeout s) then max_timeout s
      else Num DEFAULT_GRACEFUL_TIMEOUT)"

definition setMaxTimeout :: "jsval \<Rightarrow> state \<Rightarrow> state" where
  "setMaxTimeout timeout s = s\<lparr>max_timeout := timeout\<rparr>"

definition setLogger :: "logger \<Rightarrow> state \<Rightarrow> state" where
  "setLogger logger s = s\<lparr>log_fn := logger\<rparr>"

subsection \<open>Listening to shutdown\<close>

text \<open>
  \<^verbatim>\<open>_addExitHandler(signal, handler)\<close>. The handler is a fresh closure each time;
  what it does when it fires depends only on the signal it is bound to (see
  \<open>exit_listener\<close> below).
\<close>

definition addExitHandler :: "signal \<Rightarrow> state \<Rightarrow> state" where
  "addExitHandler sig s =
     (let tbl = (case exit_signal_handlers s of None \<Rightarrow> Map.empty | Some t \<Rightarrow> t);
          handlers = (case tbl sig of None \<Rightarrow> [] | Some hs \<Rightarrow> hs);
          handler = next_listener s
      in s\<lparr>process_listeners := process_listeners s @ [(sig, handler)],
            next_listener := Suc handler,
            exit_signal_handlers := Some (tbl(sig \<mapsto> handlers @ [handler]))\<rparr>)"

definition registerExitListeners :: "state \<Rightarrow> state" where
  "registerExitListeners s =
     (if \<not> listening_to_exit s
      then (fold addExitHandler SYSTEM_EXIT_SIGNALS (addExitHandler Message s))
             \<lparr>listening_to_exit := True\<rparr>
      else s)"

text \<open>
  \<^verbatim>\<open>process.removeListener\<close> inside its \<^verbatim>\<open>try\<close>: the listener is unbound; if it
  is not bound (it has fired already) nothing happens, or the call throws and the
  \<^verbatim>\<open>catch\<close> logs.
\<close>

definition removeListener :: "signal \<Rightarrow> nat \<Rightarrow> state \<Rightarrow> state" where
  "removeListener sig h s =
     (if (sig, h) \<in> set (process_listeners s)
      then s\<lparr>process_listeners := remove1 (sig, h) (process_listeners s)\<rparr>
      else if sig \<in> set (remove_throws s) then log (RemoveHandlerError sig) s
      else s)"

definition cleanup_signal :: "signal \<Rightarrow> state \<Rightarrow> state" where
  "cleanup_signal sig s =
     (case exit_signal_handlers s of
        None \<Rightarrow> s
      | Some tbl \<Rightarrow>
          (let s1 = (case tbl sig of
                       None \<Rightarrow> s
                     | Some signalHandlers \<Rightarrow> fold (removeListener sig) signalHandlers s)
           in s1\<lparr>exit_signal_handlers := Some (tbl(sig := None))\<rparr>))"

text \<open>
  The property names of \<open>exit_signal_handlers\<close> are among the four signals, in the
  order in which \<open>registerExitListeners\<close> inserts them; a name that is not a
  property is like one that holds \<^verbatim>\<open>null\<close>.
\<close>

definition cleanupExitListeners :: "state \<Rightarrow> state" where
  "cleanupExitListeners s =
     (case exit_signal_handlers s of
        None \<Rightarrow> s
      | Some tbl \<Rightarrow>
          (fold cleanup_signal (Message # SYSTEM_EXIT_SIGNALS) s)\<lparr>listening_to_exit := False\<rparr>)"

subsection \<open>Generic shutdown handlers\<close>

definition addTidyExitHandler :: "handler \<Rightarrow> string option \<Rightarrow> jsval \<Rightarrow> state \<Rightarrow> state" where
  "addTidyExitHandler appExitHandler desc timeout s =
     (let s1 = registerExitListeners s;
          s2 = s1\<lparr>tidyExit_listeners := tidyExit_listeners s1 @ [Task appExitHandler desc]\<rparr>
      in if js_gt timeout (max_handler_timeout s2)
         then s2\<lparr>max_handler_timeout := timeout\<rparr>
         else s2)"

text \<open>
  \<^verbatim>\<open>_checkHandlersDone(handler_number)\<close>. A negative handler number passes both
  tests and writes a property that is no element of the array, which neither
  \<^verbatim>\<open>length\<close> nor \<^verbatim>\<open>forEach\<close> sees.
\<close>

definition checkHandlersDone :: "jsval \<Rightarrow> state \<Rightarrow> bool \<times> state" where
  "checkHandlersDone handler_number s =
     (let handler_count = length (handler_callback_registry s);
          s1 = (if truthy handler_number
                then (if js_le handler_number (Num (int handler_count))
                      then (case handler_number of
                              Num n \<Rightarrow>
                                (if 1 \<le> n
                                 then s\<lparr>handler_callback_registry :=
                                          (handler_callback_registry s)
                                            [nat (n - 1) := handler_callback_registry s ! nat (n - 1) + 1]\<rparr>
                                 else s)
                            | _ \<Rightarrow> s)
                      else log (InvalidCallbackHandlerNumber handler_number) s)
                else s);
          all_done = (registered_handlers_count s1 \<le> handler_count
                      \<and> list_all (\<lambda>callback_count. \<not> callback_count < 1) (handler_callback_registry s1))
      in if all_done then (True, process_exit 0 s1) else (False, s1))"

text \<open>
  \<^verbatim>\<open>tidy_exit_event.emit('done', handler_number)\<close>: every bound
  \<^verbatim>\<open>_checkHandlersDone\<close> runs in turn, unless the process has ended.
\<close>

fun emit_done :: "nat \<Rightarrow> jsval \<Rightarrow> state \<Rightarrow> state" where
  "emit_done 0 handler_number s = s"
| "emit_done (Suc k) handler_number s =
     (if exited s then s
      else emit_done k handler_number (snd (checkHandlersDone handler_number s)))"

text \<open>The completion callback handed to a cleanup task, closed over its slot number.\<close>

definition done_callback :: "nat \<Rightarrow> state \<Rightarrow> state" where
  "done_callback handler_number s =
     (if exited s then s else emit_done (done_listeners s) (Num (int handler_number)) s)"

text \<open>The callback of the safety-net timer.\<close>

definition default_exit_timeout :: "state \<Rightarrow> state" where
  "default_exit_timeout s =
     (let (done, s1) = checkHandlersDone Undefined s
      in if \<not> done then process_exit 1 (log TimedOutWaiting s1) else s1)"

definition defaultExitHandler :: "nat \<Rightarrow> state \<Rightarrow> state" where
  "defaultExitHandler handler_number s =
     (let s1 = (if default_exit_timer s = None
                then (let timeout = getTimeout s;
                          (t, s') = setTimeout timeout s
                      in s'\<lparr>default_exit_timer := Some t\<rparr>)
                else s)
      in done_callback handler_number s1)"

text \<open>What each kind of cleanup task does when it is called with its completion callback.\<close>

definition call_handler :: "handler \<Rightarrow> nat \<Rightarrow> state \<Rightarrow> state" where
  "call_handler h handler_number s =
     (case h of
        AppHandler k \<Rightarrow> (done_callback handler_number ^^ k) s
      | DefaultExitHandler \<Rightarrow> defaultExitHandler handler_number s
      | ExpressAppHandler a \<Rightarrow>
          done_callback handler_number
            (s\<lparr>apps := (apps s)(a := (apps s a)\<lparr>tidy_exit_state := Some True\<rparr>)\<rparr>)
      | HttpServerHandler v \<Rightarrow>
          s\<lparr>servers := (servers s)
               (v := (servers s v)\<lparr>close_callbacks := close_callbacks (servers s v) @ [handler_number]\<rparr>)\<rparr>)"

text \<open>The \<^verbatim>\<open>once\<close> listener that \<^verbatim>\<open>addTidyExitHandler\<close> binds on \<^verbatim>\<open>tidyExit\<close>.\<close>

definition tidy_exit_listener :: "payload \<Rightarrow> task \<Rightarrow> state \<Rightarrow> state" where
  "tidy_exit_listener source t s =
     (case t of Task appExitHandler desc \<Rightarrow>
        (let s1 = s\<lparr>handler_callback_registry := handler_callback_registry s @ [0]\<rparr>;
             handler_number = length (handler_callback_registry s1);
             s2 = log (GracefulExitTriggered source desc) s1;
             s3 = s2\<lparr>invocations := invocations s2 @ [(appExitHandler, handler_number)]\<rparr>
         in call_handler appExitHandler handler_number s3))"

text \<open>
  \<^verbatim>\<open>tidy_exit_event.emit('tidyExit', source)\<close>: the listeners bound at the time of the
  call run in the order of their binding; each is unbound before it runs.
\<close>

fun emit_tidyExit :: "payload \<Rightarrow> task list \<Rightarrow> state \<Rightarrow> state" where
  "emit_tidyExit source [] s = s"
| "emit_tidyExit source (t # ts) s =
     (if exited s then s
      else emit_tidyExit source ts
             (tidy_exit_listener source t
                (s\<lparr>tidyExit_listeners := remove1 t (tidyExit_listeners s)\<rparr>)))"

definition registerDefaultTimeoutHandler :: "state \<Rightarrow> state" where
  "registerDefaultTimeoutHandler s =
     (let s1 = addTidyExitHandler DefaultExitHandler (Some ''default timeout handler'') Undefined s
      in s1\<lparr>done_listeners := Suc (done_listeners s1)\<rparr>)"

definition emittidyExitEvent :: "payload \<Rightarrow> state \<Rightarrow> state" where
  "emittidyExitEvent sig s =
     (let s1 = registerDefaultTimeoutHandler s;
          s2 = s1\<lparr>registered_handlers_count := length (tidyExit_listeners s1)\<rparr>;
          s3 = s2\<lparr>broadcasts := broadcasts s2 @ [sig]\<rparr>
      in emit_tidyExit sig (tidyExit_listeners s3) s3)"

text \<open>
  The two closures that \<open>registerExitListeners\<close> binds: the one for
  \<^verbatim>\<open>message\<close> filters the payload, the one for a system signal passes the signal's
  name.
\<close>

definition exit_listener :: "signal \<Rightarrow> payload \<Rightarrow> state \<Rightarrow> state" where
  "exit_listener sig message s =
     (case sig of
        Message \<Rightarrow> (if loose_eq_shutdown message then emittidyExitEvent message s else s)
      | _ \<Rightarrow> emittidyExitEvent (PStr (signal_name sig)) s)"

text \<open>
  \<^verbatim>\<open>process.emit(sig, message)\<close>, as far as the listeners of this module go: they
  are bound with \<^verbatim>\<open>process.once\<close>, so each is unbound, then called.
\<close>

fun fire_listeners :: "signal \<Rightarrow> payload \<Rightarrow> nat list \<Rightarrow> state \<Rightarrow> state" where
  "fire_listeners sig message [] s = s"
| "fire_listeners sig message (h # hs) s =
     (if exited s then s
      else fire_listeners sig message hs
             (exit_listener sig message
                (s\<lparr>process_listeners := remove1 (sig, h) (process_listeners s)\<rparr>)))"

definition process_emit :: "signal \<Rightarrow> payload \<Rightarrow> state \<Rightarrow> state" where
  "process_emit sig message s =
     fire_listeners sig message (map snd (filter (\<lambda>p. fst p = sig) (process_listeners s))) s"

subsection \<open>Reset\<close>

definition init :: "state \<Rightarrow> state" where
  "init s =
     (let s1 = s\<lparr>handler_callback_registry := [],
                 registered_handlers_count := 0,
                 tidyExit_listeners := [],
                 done_listeners := 0,
                 log_fn := DefaultLogger\<rparr>;
          s2 = cleanupExitListeners s1;
          s3 = s2\<lparr>max_timeout := Num 0, max_handler_timeout := Num 0\<rparr>;
          s4 = clearTimeout (default_exit_timer s3) s3
      in s4\<lparr>default_exit_timer := None\<rparr>)"

subsection \<open>Application hooks\<close>

text \<open>
  The value a public function returns to its caller. Neither hook has a
  \<^verbatim>\<open>return\<close> statement.
\<close>

datatype return_value = ReturnsUndefined | ReturnsHandle

text \<open>
  The middleware \<^verbatim>\<open>_expresstidyExitHandler\<close>: the argument it passes to
  \<^verbatim>\<open>req.connection.setTimeout\<close>, if it calls it, before \<^verbatim>\<open>next()\<close>.
\<close>

definition expresstidyExitHandler :: "nat \<Rightarrow> state \<Rightarrow> nat option" where
  "expresstidyExitHandler app s =
     (if tidy_exit_state (apps s app) = Some True then Some 1 else None)"

definition hookExpressApp :: "nat \<Rightarrow> state \<Rightarrow> return_value \<times> state" where
  "hookExpressApp app s =
     (if tidy_exit_state (apps s app) = None
      then (let s1 = s\<lparr>apps := (apps s)
                          (app := (apps s app)\<lparr>tidy_exit_state := Some False,
                                                 middleware := Suc (middleware (apps s app))\<rparr>)\<rparr>
            in (ReturnsUndefined,
                addTidyExitHandler (ExpressAppHandler app) (Some ''expressApp'') Undefined s1))
      else (ReturnsUndefined, s))"

text \<open>
  An \<open>ExpressListener\<close> is a request listener whose \<^verbatim>\<open>use\<close>, \<^verbatim>\<open>set\<close> and
  \<^verbatim>\<open>get\<close> are functions; a \<open>PlainListener\<close> lacks one of them.
\<close>

definition detectAndHookExpressApp :: "request_listener \<Rightarrow> state \<Rightarrow> state" where
  "detectAndHookExpressApp listener s =
     (case listener of
        ExpressListener app \<Rightarrow> snd (hookExpressApp app s)
      | PlainListener \<Rightarrow> s)"

definition hookHttpServer :: "nat \<Rightarrow> bool option \<Rightarrow> state \<Rightarrow> return_value \<times> state" where
  "hookHttpServer server hook_apps s =
     (let s1 = addTidyExitHandler (HttpServerHandler server) (Some ''httpServer'') Undefined s
      in (ReturnsUndefined,
          if hook_apps \<noteq> Some False
          then fold detectAndHookExpressApp (request_listeners (servers s1 server)) s1
          else s1))"

subsection \<open>Executions\<close>

text \<open>
  What can happen to a loaded module: a call of its public interface, an event emitted
  on \<^verbatim>\<open>process\<close>, a cleanup task calling the completion callback it was handed for a
  slot, or a pending timer expiring.
\<close>

datatype event =
    CallAddTidyExitHandler handler "string option" jsval
  | CallSetMaxTimeout jsval
  | CallSetLogger logger
  | CallReset
  | CallHookExpressApp nat
  | CallHookHttpServer nat "bool option"
  | ProcessEmit signal payload
  | CompletionCallback nat
  | TimerExpires nat

definition timer_expires :: "nat \<Rightarrow> state \<Rightarrow> state" where
  "timer_expires t s =
     (if t \<in> fst ` set (timers s)
      then default_exit_timeout (s\<lparr>timers := filter (\<lambda>p. fst p \<noteq> t) (timers s)\<rparr>)
      else s)"

definition step :: "event \<Rightarrow> state \<Rightarrow> state" where
  "step e s =
     (if exited s then s
      else (case e of
              CallAddTidyExitHandler h desc timeout \<Rightarrow> addTidyExitHandler h desc timeout s
            | CallSetMaxTimeout timeout \<Rightarrow> setMaxTimeout timeout s
            | CallSetLogger logger \<Rightarrow> setLogger logger s
            | CallReset \<Rightarrow> init s
            | CallHookExpressApp app \<Rightarrow> snd (hookExpressApp app s)
            | CallHookHttpServer server hook_apps \<Rightarrow> snd (hookHttpServer server hook_apps s)
            | ProcessEmit sig message \<Rightarrow> process_emit sig message s
            | CompletionCallback n \<Rightarrow> done_callback n s
            | TimerExpires t \<Rightarrow> timer_expires t s))"

definition run :: "event list \<Rightarrow> state \<Rightarrow> state" where
  "run es s = fold step es s"

text \<open>
  The variables before the module's top-level \<^verbatim>\<open>_init()\<close> has run, in an
  environment given by the request listeners of the servers and by the signals whose
  listeners cannot be removed twice; and the module as \<^verbatim>\<open>require\<close> returns it.
\<close>

definition fresh :: "(nat \<Rightarrow> request_listener list) \<Rightarrow> signal list \<Rightarrow> state" where
  "fresh listeners throwing =
     \<lparr>log_fn = DefaultLogger,
      tidyExit_listeners = [],
      done_listeners = 0,
      registered_handlers_count = 0,
      exit_signal_handlers = None,
      listening_to_exit = False,
      handler_callback_registry = [],
      max_timeout = Undefined,
      max_handler_timeout = Undefined,
      default_exit_timer = None,
      process_listeners = [],
      next_listener = 0,
      timers = [],
      next_timer = 0,
      exit_calls = [],
      log_calls = [],
      invocations = [],
      broadcasts = [],
      apps = (\<lambda>a. \<lparr>tidy_exit_state = None, middleware = 0\<rparr>),
      servers = (\<lambda>v. \<lparr>request_listeners = listeners v, close_callbacks = []\<rparr>),
      remove_throws = throwing\<rparr>"

definition loaded :: "(nat \<Rightarrow> request_listener list) \<Rightarrow> signal list \<Rightarrow> state" where
  "loaded listeners throwing = init (fresh listeners throwing)"

text \<open>The simplest environment: no server has a request listener, no removal throws.\<close>

definition loaded0 :: state where
  "loaded0 = loaded (\<lambda>v. []) []"

subsection \<open>The drained check, in the words of the specification\<close>

definition isFullyDrained :: "state \<Rightarrow> bool" where
  "isFullyDrained s =
     (registered_handlers_count s \<le> length (handler_callback_registry s)
      \<and> (\<forall>c \<in> set (handler_callback_registry s). 1 \<le> c))"

subsection \<open>The timeout policy, in the words of the specification\<close>

text \<open>
  \<open>H\<close> is the running maximum of the timeouts requested since the last reset, 0 if
  there is none; \<open>M\<close> is the global override, \<open>None\<close> when it is unset. The
  variable behind \<open>M\<close> holds 0 until it is set, so an override of 0, like
  \<^verbatim>\<open>null\<close> or \<^verbatim>\<open>undefined\<close>, reads as unset.
\<close>

definition resolveTimeout :: "int \<Rightarrow> int option \<Rightarrow> int" where
  "resolveTimeout H M =
     (if H \<noteq> 0 \<and> (case M of None \<Rightarrow> True | Some m \<Rightarrow> H < m) then H
      else (case M of Some m \<Rightarrow> m | None \<Rightarrow> 120000))"

definition since_reset :: "event list \<Rightarrow> event list" where
  "since_reset es = rev (takeWhile (\<lambda>e. e \<noteq> CallReset) (rev es))"

fun requested_timeout :: "event \<Rightarrow> int option" where
  "requested_timeout (CallAddTidyExitHandler h desc (Num n)) = Some n"
| "requested_timeout _ = None"

definition handler_timeout_max :: "event list \<Rightarrow> int" where
  "handler_timeout_max es = Max (set (0 # List.map_filter requested_timeout (since_reset es)))"

fun override_call :: "event \<Rightarrow> jsval option" where
  "override_call (CallSetMaxTimeout timeout) = Some timeout"
| "override_call _ = None"

fun override_value :: "jsval \<Rightarrow> int option" where
  "override_value (Num n) = (if n = 0 then None else Some n)"
| "override_value _ = None"

definition global_override :: "event list \<Rightarrow> int option" where
  "global_override es =
     (let ms = List.map_filter override_call (since_reset es)
      in if ms = [] then None else override_value (last ms))"

subsection \<open>Sample executions\<close>

text \<open>
  One application handler that completes later is registered and \<^verbatim>\<open>SIGTERM\<close>
  arrives: the handler holds slot 1 and is pending, the safety-net task holds slot 2
  and is done.
\<close>

definition pending_shutdown :: state where
  "pending_shutdown =
     run [CallAddTidyExitHandler (AppHandler 0) None Undefined, ProcessEmit SIGTERM PUndefined] loaded0"

subsection \<open>Invariants\<close>

definition exits_once :: "state \<Rightarrow> bool" where
  "exits_once s = (length (exit_calls s) \<le> 1)"

text \<open>The listener closures that \<open>exit_signal_handlers\<close> holds for a signal.\<close>

definition tracked :: "state \<Rightarrow> signal \<Rightarrow> nat list" where
  "tracked s sg =
     (case exit_signal_handlers s of
        None \<Rightarrow> []
      | Some tbl \<Rightarrow> (case tbl sg of None \<Rightarrow> [] | Some hs \<Rightarrow> hs))"

text \<open>
  Every listener bound on \<^verbatim>\<open>process\<close> is held in \<open>exit_signal_handlers\<close>, no
  closure is bound twice, and the module listens only once the table exists.
\<close>

definition listeners_tracked :: "state \<Rightarrow> bool" where
  "listeners_tracked s =
     ((\<forall>p \<in> set (process_listeners s). snd p \<in> set (tracked s (fst p)) \<and> snd p < next_listener s)
      \<and> distinct (process_listeners s)
      \<and> (exit_signal_handlers s = None \<longrightarrow> \<not> listening_to_exit s))"

text \<open>The only pending timer is the one whose handle \<open>default_exit_timer\<close> holds.\<close>

definition timers_owned :: "state \<Rightarrow> bool" where
  "timers_owned s = (\<forall>p \<in> set (timers s). default_exit_timer s = Some (fst p))"

text \<open>
  Which listener a broadcast came from, read off its source label: a system signal's
  listener passes the signal's name, the \<^verbatim>\<open>message\<close> listener passes the payload.
\<close>

definition trigger_of :: "payload \<Rightarrow> signal" where
  "trigger_of src =
     (if src = PStr ''SIGTERM'' then SIGTERM
      else if src = PStr ''SIGINT'' then SIGINT
      else if src = PStr ''SIGBREAK'' then SIGBREAK
      else Message)"

text \<open>The number of broadcasts after the first \<open>b\<close> that came from a signal's listener.\<close>

definition cycles :: "nat \<Rightarrow> signal \<Rightarrow> state \<Rightarrow> nat" where
  "cycles b sg s = length (filter (\<lambda>src. trigger_of src = sg) (drop b (broadcasts s)))"

definition bound_listeners :: "signal \<Rightarrow> state \<Rightarrow> nat" where
  "bound_listeners sg s = length (filter (\<lambda>p. fst p = sg) (process_listeners s))"

text \<open>
  Since the \<open>b\<close>-th broadcast, every signal has either its listener still bound or one
  broadcast behind it, never both and never two.
\<close>

definition single_fire :: "nat \<Rightarrow> state \<Rightarrow> bool" where
  "single_fire b s =
     (b \<le> length (broadcasts s)
      \<and> (if listening_to_exit s
         then (\<forall>sg. cycles b sg s + bound_listeners sg s \<le> 1)
         else length (broadcasts s) = b \<and> process_listeners s = []))"

subsection \<open>Registrations\<close>

fun task_handler :: "task \<Rightarrow> handler" where
  "task_handler (Task h desc) = h"

text \<open>A call of \<^verbatim>\<open>addTidyExitHandler(handler, desc, timeout)\<close>, as an event.\<close>

fun registration :: "handler \<times> string option \<times> jsval \<Rightarrow> event" where
  "registration (h, desc, timeout) = CallAddTidyExitHandler h desc timeout"

text \<open>
  The timer handle is set exactly when the safety-net task has been called since the
  \<open>b\<close>-th call of a cleanup task.
\<close>

definition armed_by_default :: "nat \<Rightarrow> state \<Rightarrow> bool" where
  "armed_by_default b s =
     (b \<le> length (invocations s)
      \<and> (default_exit_timer s \<noteq> None) = (DefaultExitHandler \<in> fst ` set (drop b (invocations s))))"

subsection \<open>Shutdown cycles\<close>

text \<open>
  The state right after a reset of a running process: nothing is bound, registered or
  assigned.
\<close>

definition freshly_reset :: "state \<Rightarrow> bool" where
  "freshly_reset s =
     (\<not> exited s \<and> process_listeners s = [] \<and> \<not> listening_to_exit s
      \<and> handler_callback_registry s = [] \<and> tidyExit_listeners s = [])"

text \<open>A cleanup task that returns without having called its completion callback.\<close>

fun completes_later :: "handler \<Rightarrow> bool" where
  "completes_later (AppHandler k) = (k = 0)"
| "completes_later DefaultExitHandler = False"
| "completes_later (ExpressAppHandler a) = False"
| "completes_later (HttpServerHandler v) = True"

text \<open>The source label a listener passes to the broadcast.\<close>

definition source_label :: "signal \<Rightarrow> payload \<Rightarrow> payload" where
  "source_label sg m = (if sg = Message then m else PStr (signal_name sg))"

text \<open>
  Slot \<open>i\<close> (counted from 0) of a running process is assigned and its task has not
  completed.
\<close>

definition slot_pending :: "nat \<Rightarrow> state \<Rightarrow> bool" where
  "slot_pending i s =
     (\<not> exited s \<and> i < length (handler_callback_registry s)
      \<and> handler_callback_registry s ! i = 0)"

section \<open>Properties\<close>

subsection \<open>What each operation leaves alone\<close>

lemma exited_log [simp]: "exited (log e s) = exited s"
  by (simp add: exited_def log_def)

lemma exited_process_exit [simp]: "exited (process_exit c s)"
  by (simp add: exited_def process_exit_def)

lemma js_gt_Undefined [simp]: "js_gt Undefined x = False"
  by (simp add: js_gt_def)

lemma list_all_ge1: "list_all ((<) (0::nat)) xs = (\<forall>c \<in> set xs. 1 \<le> c)"
  by (auto simp: list_all_iff Suc_le_eq)

lemma checkHandlersDone_Undefined:
  "checkHandlersDone Undefined s =
     (if isFullyDrained s then (True, process_exit 0 s) else (False, s))"
  by (auto simp: checkHandlersDone_def isFullyDrained_def Let_def list_all_ge1)

lemma checkHandlersDone_frame [simp]:
  "length (handler_callback_registry (snd (checkHandlersDone hn s))) = length (handler_callback_registry s)"
  "max_timeout (snd (checkHandlersDone hn s)) = max_timeout s"
  "max_handler_timeout (snd (checkHandlersDone hn s)) = max_handler_timeout s"
  "process_listeners (snd (checkHandlersDone hn s)) = process_listeners s"
  "next_listener (snd (checkHandlersDone hn s)) = next_listener s"
  "exit_signal_handlers (snd (checkHandlersDone hn s)) = exit_signal_handlers s"
  "listening_to_exit (snd (checkHandlersDone hn s)) = listening_to_exit s"
  "remove_throws (snd (checkHandlersDone hn s)) = remove_throws s"
  "timers (snd (checkHandlersDone hn s)) = timers s"
  "next_timer (snd (checkHandlersDone hn s)) = next_timer s"
  "default_exit_timer (snd (checkHandlersDone hn s)) = default_exit_timer s"
  "tidyExit_listeners (snd (checkHandlersDone hn s)) = tidyExit_listeners s"
  "done_listeners (snd (checkHandlersDone hn s)) = done_listeners s"
  "registered_handlers_count (snd (checkHandlersDone hn s)) = registered_handlers_count s"
  "broadcasts (snd (checkHandlersDone hn s)) = broadcasts s"
  "invocations (snd (checkHandlersDone hn s)) = invocations s"
  "apps (snd (checkHandlersDone hn s)) = apps s"
  "servers (snd (checkHandlersDone hn s)) = servers s"
  "log_fn (snd (checkHandlersDone hn s)) = log_fn s"
  by (cases hn; simp add: checkHandlersDone_def Let_def log_def process_exit_def)+

lemma emit_done_frame [simp]:
  "length (handler_callback_registry (emit_done k hn s)) = length (handler_callback_registry s)"
  "max_timeout (emit_done k hn s) = max_timeout s"
  "max_handler_timeout (emit_done k hn s) = max_handler_timeout s"
  "process_listeners (emit_done k hn s) = process_listeners s"
  "next_listener (emit_done k hn s) = next_listener s"
  "exit_signal_handlers (emit_done k hn s) = exit_signal_handlers s"
  "listening_to_exit (emit_done k hn s) = listening_to_exit s"
  "remove_throws (emit_done k hn s) = remove_throws s"
  "timers (emit_done k hn s) = timers s"
  "next_timer (emit_done k hn s) = next_timer s"
  "default_exit_timer (emit_done k hn s) = default_exit_timer s"
  "tidyExit_listeners (emit_done k hn s) = tidyExit_listeners s"
  "done_listeners (emit_done k hn s) = done_listeners s"
  "registered_handlers_count (emit_done k hn s) = registered_handlers_count s"
  "broadcasts (emit_done k hn s) = broadcasts s"
  "invocations (emit_done k hn s) = invocations s"
  "apps (emit_done k hn s) = apps s"
  "servers (emit_done k hn s) = servers s"
  "log_fn (emit_done k hn s) = log_fn s"
  by (induction k arbitrary: s; simp)+

lemma done_callback_frame [simp]:
  "length (handler_callback_registry (done_callback n s)) = length (handler_callback_registry s)"
  "max_timeout (done_callback n s) = max_timeout s"
  "max_handler_timeout (done_callback n s) = max_handler_timeout s"
  "process_listeners (done_callback n s) = process_listeners s"
  "next_listener (done_callback n s) = next_listener s"
  "exit_signal_handlers (done_callback n s) = exit_signal_handlers s"
  "listening_to_exit (done_callback n s) = listening_to_exit s"
  "remove_throws (done_callback n s) = remove_throws s"
  "timers (done_callback n s) = timers s"
  "next_timer (done_callback n s) = next_timer s"
  "default_exit_timer (done_callback n s) = default_exit_timer s"
  "tidyExit_listeners (done_callback n s) = tidyExit_listeners s"
  "done_listeners (done_callback n s) = done_listeners s"
  "registered_handlers_count (done_callback n s) = registered_handlers_count s"
  "broadcasts (done_callback n s) = broadcasts s"
  "invocations (done_callback n s) = invocations s"
  "apps (done_callback n s) = apps s"
  "servers (done_callback n s) = servers s"
  "log_fn (done_callback n s) = log_fn s"
  by (simp_all add: done_callback_def)

lemma funpow_done_callback_frame [simp]:
  "length (handler_callback_registry ((done_callback n ^^ k) s)) = length (handler_callback_registry s)"
  "max_timeout ((done_callback n ^^ k) s) = max_timeout s"
  "max_handler_timeout ((done_callback n ^^ k) s) = max_handler_timeout s"
  "process_listeners ((done_callback n ^^ k) s) = process_listeners s"
  "next_listener ((done_callback n ^^ k) s) = next_listener s"
  "exit_signal_handlers ((done_callback n ^^ k) s) = exit_signal_handlers s"
  "listening_to_exit ((done_callback n ^^ k) s) = listening_to_exit s"
  "remove_throws ((done_callback n ^^ k) s) = remove_throws s"
  "timers ((done_callback n ^^ k) s) = timers s"
  "next_timer ((done_callback n ^^ k) s) = next_timer s"
  "default_exit_timer ((done_callback n ^^ k) s) = default_exit_timer s"
  "tidyExit_listeners ((done_callback n ^^ k) s) = tidyExit_listeners s"
  "done_listeners ((done_callback n ^^ k) s) = done_listeners s"
  "registered_handlers_count ((done_callback n ^^ k) s) = registered_handlers_count s"
  "broadcasts ((done_callback n ^^ k) s) = broadcasts s"
  "invocations ((done_callback n ^^ k) s) = invocations s"
  "apps ((done_callback n ^^ k) s) = apps s"
  "servers ((done_callback n ^^ k) s) = servers s"
  "log_fn ((done_callback n ^^ k) s) = log_fn s"
  by (induction k; simp)+

lemma default_exit_timeout_frame [simp]:
  "length (handler_callback_registry (default_exit_timeout s)) = length (handler_callback_registry s)"
  "max_timeout (default_exit_timeout s) = max_timeout s"
  "max_handler_timeout (default_exit_timeout s) = max_handler_timeout s"
  "process_listeners (default_exit_timeout s) = process_listeners s"
  "next_listener (default_exit_timeout s) = next_listener s"
  "exit_signal_handlers (default_exit_timeout s) = exit_signal_handlers s"
  "listening_to_exit (default_exit_timeout s) = listening_to_exit s"
  "remove_throws (default_exit_timeout s) = remove_throws s"
  "timers (default_exit_timeout s) = timers s"
  "next_timer (default_exit_timeout s) = next_timer s"
  "default_exit_timer (default_exit_timeout s) = default_exit_timer s"
  "tidyExit_listeners (default_exit_timeout s) = tidyExit_listeners s"
  "done_listeners (default_exit_timeout s) = done_listeners s"
  "registered_handlers_count (default_exit_timeout s) = registered_handlers_count s"
  "broadcasts (default_exit_timeout s) = broadcasts s"
  "invocations (default_exit_timeout s) = invocations s"
  "apps (default_exit_timeout s) = apps s"
  "servers (default_exit_timeout s) = servers s"
  "log_fn (default_exit_timeout s) = log_fn s"
  by (simp_all add: default_exit_timeout_def checkHandlersDone_Undefined process_exit_def log_def)

lemma defaultExitHandler_frame [simp]:
  "length (handler_callback_registry (defaultExitHandler n s)) = length (handler_callback_registry s)"
  "max_timeout (defaultExitHandler n s) = max_timeout s"
  "max_handler_timeout (defaultExitHandler n s) = max_handler_timeout s"
  "process_listeners (defaultExitHandler n s) = process_listeners s"
  "next_listener (defaultExitHandler n s) = next_listener s"
  "exit_signal_handlers (defaultExitHandler n s) = exit_signal_handlers s"
  "listening_to_exit (defaultExitHandler n s) = listening_to_exit s"
  "remove_throws (defaultExitHandler n s) = remove_throws s"
  "tidyExit_listeners (defaultExitHandler n s) = tidyExit_listeners s"
  "done_listeners (defaultExitHandler n s) = done_listeners s"
  "registered_handlers_count (defaultExitHandler n s) = registered_handlers_count s"
  "broadcasts (defaultExitHandler n s) = broadcasts s"
  "invocations (defaultExitHandler n s) = invocations s"
  "apps (defaultExitHandler n s) = apps s"
  "servers (defaultExitHandler n s) = servers s"
  "log_fn (defaultExitHandler n s) = log_fn s"
  by (simp_all add: defaultExitHandler_def setTimeout_def Let_def)

lemma call_handler_frame [simp]:
  "length (handler_callback_registry (call_handler h n s)) = length (handler_callback_registry s)"
  "max_timeout (call_handler h n s) = max_timeout s"
  "max_handler_timeout (call_handler h n s) = max_handler_timeout s"
  "process_listeners (call_handler h n s) = process_listeners s"
  "next_listener (call_handler h n s) = next_listener s"
  "exit_signal_handlers (call_handler h n s) = exit_signal_handlers s"
  "listening_to_exit (call_handler h n s) = listening_to_exit s"
  "remove_throws (call_handler h n s) = remove_throws s"
  "tidyExit_listeners (call_handler h n s) = tidyExit_listeners s"
  "done_listeners (call_handler h n s) = done_listeners s"
  "registered_handlers_count (call_handler h n s) = registered_handlers_count s"
  "broadcasts (call_handler h n s) = broadcasts s"
  "invocations (call_handler h n s) = invocations s"
  "log_fn (call_handler h n s) = log_fn s"
  by (cases h; simp add: call_handler_def)+

lemma tidy_exit_listener_frame [simp]:
  "length (handler_callback_registry (tidy_exit_listener src t s)) = Suc (length (handler_callback_registry s))"
  "max_timeout (tidy_exit_listener src t s) = max_timeout s"
  "max_handler_timeout (tidy_exit_listener src t s) = max_handler_timeout s"
  "process_listeners (tidy_exit_listener src t s) = process_listeners s"
  "next_listener (tidy_exit_listener src t s) = next_listener s"
  "exit_signal_handlers (tidy_exit_listener src t s) = exit_signal_handlers s"
  "listening_to_exit (tidy_exit_listener src t s) = listening_to_exit s"
  "remove_throws (tidy_exit_listener src t s) = remove_throws s"
  "tidyExit_listeners (tidy_exit_listener src t s) = tidyExit_listeners s"
  "done_listeners (tidy_exit_listener src t s) = done_listeners s"
  "registered_handlers_count (tidy_exit_listener src t s) = registered_handlers_count s"
  "broadcasts (tidy_exit_listener src t s) = broadcasts s"
  "log_fn (tidy_exit_listener src t s) = log_fn s"
  by (cases t; simp add: tidy_exit_listener_def Let_def log_def)+

lemma emit_tidyExit_frame [simp]:
  "max_timeout (emit_tidyExit src ts s) = max_timeout s"
  "max_handler_timeout (emit_tidyExit src ts s) = max_handler_timeout s"
  "process_listeners (emit_tidyExit src ts s) = process_listeners s"
  "next_listener (emit_tidyExit src ts s) = next_listener s"
  "exit_signal_handlers (emit_tidyExit src ts s) = exit_signal_handlers s"
  "listening_to_exit (emit_tidyExit src ts s) = listening_to_exit s"
  "remove_throws (emit_tidyExit src ts s) = remove_throws s"
  "done_listeners (emit_tidyExit src ts s) = done_listeners s"
  "registered_handlers_count (emit_tidyExit src ts s) = registered_handlers_count s"
  "broadcasts (emit_tidyExit src ts s) = broadcasts s"
  "log_fn (emit_tidyExit src ts s) = log_fn s"
  by (induction ts arbitrary: s; simp)+

lemma addExitHandler_frame [simp]:
  "max_timeout (addExitHandler sg s) = max_timeout s"
  "max_handler_timeout (addExitHandler sg s) = max_handler_timeout s"
  "timers (addExitHandler sg s) = timers s"
  "next_timer (addExitHandler sg s) = next_timer s"
  "default_exit_timer (addExitHandler sg s) = default_exit_timer s"
  "tidyExit_listeners (addExitHandler sg s) = tidyExit_listeners s"
  "done_listeners (addExitHandler sg s) = done_listeners s"
  "registered_handlers_count (addExitHandler sg s) = registered_handlers_count s"
  "broadcasts (addExitHandler sg s) = broadcasts s"
  "invocations (addExitHandler sg s) = invocations s"
  "apps (addExitHandler sg s) = apps s"
  "servers (addExitHandler sg s) = servers s"
  "log_fn (addExitHandler sg s) = log_fn s"
  "handler_callback_registry (addExitHandler sg s) = handler_callback_registry s"
  "exit_calls (addExitHandler sg s) = exit_calls s"
  "log_calls (addExitHandler sg s) = log_calls s"
  "listening_to_exit (addExitHandler sg s) = listening_to_exit s"
  "remove_throws (addExitHandler sg s) = remove_throws s"
  by (simp_all add: addExitHandler_def Let_def)

lemma registerExitListeners_frame [simp]:
  "max_timeout (registerExitListeners s) = max_timeout s"
  "max_handler_timeout (registerExitListeners s) = max_handler_timeout s"
  "timers (registerExitListeners s) = timers s"
  "next_timer (registerExitListeners s) = next_timer s"
  "default_exit_timer (registerExitListeners s) = default_exit_timer s"
  "tidyExit_listeners (registerExitListeners s) = tidyExit_listeners s"
  "done_listeners (registerExitListeners s) = done_listeners s"
  "registered_handlers_count (registerExitListeners s) = registered_handlers_count s"
  "broadcasts (registerExitListeners s) = broadcasts s"
  "invocations (registerExitListeners s) = invocations s"
  "apps (registerExitListeners s) = apps s"
  "servers (registerExitListeners s) = servers s"
  "log_fn (registerExitListeners s) = log_fn s"
  "handler_callback_registry (registerExitListeners s) = handler_callback_registry s"
  "exit_calls (registerExitListeners s) = exit_calls s"
  "log_calls (registerExitListeners s) = log_calls s"
  "remove_throws (registerExitListeners s) = remove_throws s"
  by (simp_all add: registerExitListeners_def SYSTEM_EXIT_SIGNALS_def)

lemma addTidyExitHandler_frame [simp]:
  "max_handler_timeout (addTidyExitHandler h desc Undefined s) = max_handler_timeout s"
  "tidyExit_listeners (addTidyExitHandler h desc timeout s) = tidyExit_listeners s @ [Task h desc]"
  "max_timeout (addTidyExitHandler h desc timeout s) = max_timeout s"
  "timers (addTidyExitHandler h desc timeout s) = timers s"
  "next_timer (addTidyExitHandler h desc timeout s) = next_timer s"
  "default_exit_timer (addTidyExitHandler h desc timeout s) = default_exit_timer s"
  "done_listeners (addTidyExitHandler h desc timeout s) = done_listeners s"
  "registered_handlers_count (addTidyExitHandler h desc timeout s) = registered_handlers_count s"
  "broadcasts (addTidyExitHandler h desc timeout s) = broadcasts s"
  "invocations (addTidyExitHandler h desc timeout s) = invocations s"
  "apps (addTidyExitHandler h desc timeout s) = apps s"
  "servers (addTidyExitHandler h desc timeout s) = servers s"
  "log_fn (addTidyExitHandler h desc timeout s) = log_fn s"
  "handler_callback_registry (addTidyExitHandler h desc timeout s) = handler_callback_registry s"
  "exit_calls (addTidyExitHandler h desc timeout s) = exit_calls s"
  "log_calls (addTidyExitHandler h desc timeout s) = log_calls s"
  "remove_throws (addTidyExitHandler h desc timeout s) = remove_throws s"
  by (simp_all add: addTidyExitHandler_def Let_def)

lemma registerDefaultTimeoutHandler_frame [simp]:
  "done_listeners (registerDefaultTimeoutHandler s) = Suc (done_listeners s)"
  "tidyExit_listeners (registerDefaultTimeoutHandler s) = tidyExit_listeners s @ [Task DefaultExitHandler (Some ''default timeout handler'')]"
  "max_timeout (registerDefaultTimeoutHandler s) = max_timeout s"
  "max_handler_timeout (registerDefaultTimeoutHandler s) = max_handler_timeout s"
  "timers (registerDefaultTimeoutHandler s) = timers s"
  "next_timer (registerDefaultTimeoutHandler s) = next_timer s"
  "default_exit_timer (registerDefaultTimeoutHandler s) = default_exit_timer s"
  "registered_handlers_count (registerDefaultTimeoutHandler s) = registered_handlers_count s"
  "broadcasts (registerDefaultTimeoutHandler s) = broadcasts s"
  "invocations (registerDefaultTimeoutHandler s) = invocations s"
  "apps (registerDefaultTimeoutHandler s) = apps s"
  "servers (registerDefaultTimeoutHandler s) = servers s"
  "log_fn (registerDefaultTimeoutHandler s) = log_fn s"
  "handler_callback_registry (registerDefaultTimeoutHandler s) = handler_callback_registry s"
  "exit_calls (registerDefaultTimeoutHandler s) = exit_calls s"
  "log_calls (registerDefaultTimeoutHandler s) = log_calls s"
  "remove_throws (registerDefaultTimeoutHandler s) = remove_throws s"
  by (simp_all add: registerDefaultTimeoutHandler_def Let_def)

lemma emittidyExitEvent_frame [simp]:
  "broadcasts (emittidyExitEvent src s) = broadcasts s @ [src]"
  "done_listeners (emittidyExitEvent src s) = Suc (done_listeners s)"
  "max_timeout (emittidyExitEvent src s) = max_timeout s"
  "max_handler_timeout (emittidyExitEvent src s) = max_handler_timeout s"
  "log_fn (emittidyExitEvent src s) = log_fn s"
  "remove_throws (emittidyExitEvent src s) = remove_throws s"
  by (simp_all add: emittidyExitEvent_def Let_def)

lemma exit_listener_frame [simp]:
  "max_timeout (exit_listener sg m s) = max_timeout s"
  "max_handler_timeout (exit_listener sg m s) = max_handler_timeout s"
  "log_fn (exit_listener sg m s) = log_fn s"
  "remove_throws (exit_listener sg m s) = remove_throws s"
  by (cases sg; simp add: exit_listener_def)+

lemma fire_listeners_frame [simp]:
  "max_timeout (fire_listeners sg m hs s) = max_timeout s"
  "max_handler_timeout (fire_listeners sg m hs s) = max_handler_timeout s"
  "log_fn (fire_listeners sg m hs s) = log_fn s"
  "remove_throws (fire_listeners sg m hs s) = remove_throws s"
  by (induction hs arbitrary: s; simp)+

lemma process_emit_frame [simp]:
  "max_timeout (process_emit sg m s) = max_timeout s"
  "max_handler_timeout (process_emit sg m s) = max_handler_timeout s"
  "log_fn (process_emit sg m s) = log_fn s"
  "remove_throws (process_emit sg m s) = remove_throws s"
  by (simp_all add: process_emit_def)

lemma timer_expires_frame [simp]:
  "length (handler_callback_registry (timer_expires t s)) = length (handler_callback_registry s)"
  "max_timeout (timer_expires t s) = max_timeout s"
  "max_handler_timeout (timer_expires t s) = max_handler_timeout s"
  "process_listeners (timer_expires t s) = process_listeners s"
  "next_listener (timer_expires t s) = next_listener s"
  "exit_signal_handlers (timer_expires t s) = exit_signal_handlers s"
  "listening_to_exit (timer_expires t s) = listening_to_exit s"
  "remove_throws (timer_expires t s) = remove_throws s"
  "next_timer (timer_expires t s) = next_timer s"
  "default_exit_timer (timer_expires t s) = default_exit_timer s"
  "tidyExit_listeners (timer_expires t s) = tidyExit_listeners s"
  "done_listeners (timer_expires t s) = done_listeners s"
  "registered_handlers_count (timer_expires t s) = registered_handlers_count s"
  "broadcasts (timer_expires t s) = broadcasts s"
  "invocations (timer_expires t s) = invocations s"
  "apps (timer_expires t s) = apps s"
  "servers (timer_expires t s) = servers s"
  "log_fn (timer_expires t s) = log_fn s"
  by (simp_all add: timer_expires_def)

lemma hookExpressApp_frame [simp]:
  "max_timeout (snd (hookExpressApp app s)) = max_timeout s"
  "max_handler_timeout (snd (hookExpressApp app s)) = max_handler_timeout s"
  "timers (snd (hookExpressApp app s)) = timers s"
  "next_timer (snd (hookExpressApp app s)) = next_timer s"
  "default_exit_timer (snd (hookExpressApp app s)) = default_exit_timer s"
  "done_listeners (snd (hookExpressApp app s)) = done_listeners s"
  "registered_handlers_count (snd (hookExpressApp app s)) = registered_handlers_count s"
  "broadcasts (snd (hookExpressApp app s)) = broadcasts s"
  "invocations (snd (hookExpressApp app s)) = invocations s"
  "servers (snd (hookExpressApp app s)) = servers s"
  "log_fn (snd (hookExpressApp app s)) = log_fn s"
  "handler_callback_registry (snd (hookExpressApp app s)) = handler_callback_registry s"
  "exit_calls (snd (hookExpressApp app s)) = exit_calls s"
  "log_calls (snd (hookExpressApp app s)) = log_calls s"
  "remove_throws (snd (hookExpressApp app s)) = remove_throws s"
  by (simp_all add: hookExpressApp_def Let_def)

lemma detectAndHookExpressApp_frame [simp]:
  "max_timeout (detectAndHookExpressApp l s) = max_timeout s"
  "max_handler_timeout (detectAndHookExpressApp l s) = max_handler_timeout s"
  "timers (detectAndHookExpressApp l s) = timers s"
  "next_timer (detectAndHookExpressApp l s) = next_timer s"
  "default_exit_timer (detectAndHookExpressApp l s) = default_exit_timer s"
  "done_listeners (detectAndHookExpressApp l s) = done_listeners s"
  "registered_handlers_count (detectAndHookExpressApp l s) = registered_handlers_count s"
  "broadcasts (detectAndHookExpressApp l s) = broadcasts s"
  "invocations (detectAndHookExpressApp l s) = invocations s"
  "servers (detectAndHookExpressApp l s) = servers s"
  "log_fn (detectAndHookExpressApp l s) = log_fn s"
  "handler_callback_registry (detectAndHookExpressApp l s) = handler_callback_registry s"
  "exit_calls (detectAndHookExpressApp l s) = exit_calls s"
  "log_calls (detectAndHookExpressApp l s) = log_calls s"
  "remove_throws (detectAndHookExpressApp l s) = remove_throws s"
  by (cases l; simp add: detectAndHookExpressApp_def)+

lemma fold_detectAndHookExpressApp_frame [simp]:
  "max_timeout (fold detectAndHookExpressApp ls s) = max_timeout s"
  "max_handler_timeout (fold detectAndHookExpressApp ls s) = max_handler_timeout s"
  "timers (fold detectAndHookExpressApp ls s) = timers s"
  "next_timer (fold detectAndHookExpressApp ls s) = next_timer s"
  "default_exit_timer (fold detectAndHookExpressApp ls s) = default_exit_timer s"
  "done_listeners (fold detectAndHookExpressApp ls s) = done_listeners s"
  "registered_handlers_count (fold detectAndHookExpressApp ls s) = registered_handlers_count s"
  "broadcasts (fold detectAndHookExpressApp ls s) = broadcasts s"
  "invocations (fold detectAndHookExpressApp ls s) = invocations s"
  "servers (fold detectAndHookExpressApp ls s) = servers s"
  "log_fn (fold detectAndHookExpressApp ls s) = log_fn s"
  "handler_callback_registry (fold detectAndHookExpressApp ls s) = handler_callback_registry s"
  "exit_calls (fold detectAndHookExpressApp ls s) = exit_calls s"
  "log_calls (fold detectAndHookExpressApp ls s) = log_calls s"
  "remove_throws (fold detectAndHookExpressApp ls s) = remove_throws s"
  by (induction ls arbitrary: s; simp)+

lemma hookHttpServer_frame [simp]:
  "max_timeout (snd (hookHttpServer server hook_apps s)) = max_timeout s"
  "max_handler_timeout (snd (hookHttpServer server hook_apps s)) = max_handler_timeout s"
  "timers (snd (hookHttpServer server hook_apps s)) = timers s"
  "next_timer (snd (hookHttpServer server hook_apps s)) = next_timer s"
  "default_exit_timer (snd (hookHttpServer server hook_apps s)) = default_exit_timer s"
  "done_listeners (snd (hookHttpServer server hook_apps s)) = done_listeners s"
  "registered_handlers_count (snd (hookHttpServer server hook_apps s)) = registered_handlers_count s"
  "broadcasts (snd (hookHttpServer server hook_apps s)) = broadcasts s"
  "invocations (snd (hookHttpServer server hook_apps s)) = invocations s"
  "servers (snd (hookHttpServer server hook_apps s)) = servers s"
  "log_fn (snd (hookHttpServer server hook_apps s)) = log_fn s"
  "handler_callback_registry (snd (hookHttpServer server hook_apps s)) = handler_callback_registry s"
  "exit_calls (snd (hookHttpServer server hook_apps s)) = exit_calls s"
  "log_calls (snd (hookHttpServer server hook_apps s)) = log_calls s"
  "remove_throws (snd (hookHttpServer server hook_apps s)) = remove_throws s"
  by (simp_all add: hookHttpServer_def Let_def)

subsection \<open>The drained check\<close>

lemma checkHandlersDone_result:
  "fst (checkHandlersDone hn s) = isFullyDrained (snd (checkHandlersDone hn s))"
  by (cases hn)
     (auto simp: checkHandlersDone_def isFullyDrained_def Let_def log_def process_exit_def list_all_ge1)

lemma checkHandlersDone_exit:
  "exit_calls (snd (checkHandlersDone hn s)) =
     (if fst (checkHandlersDone hn s) then exit_calls s @ [0] else exit_calls s)"
  by (cases hn)
     (auto simp: checkHandlersDone_def Let_def log_def process_exit_def)

lemma checkHandlersDone_pending:
  assumes "length (handler_callback_registry s) < registered_handlers_count s"
  shows "fst (checkHandlersDone hn s) = False"
    and "exit_calls (snd (checkHandlersDone hn s)) = exit_calls s"
  using assms
  by (cases hn; simp add: checkHandlersDone_def Let_def log_def process_exit_def)+

lemma emit_done_drained:
  "\<not> exited s \<Longrightarrow> \<not> isFullyDrained s \<Longrightarrow> isFullyDrained (emit_done k hn s)
     \<Longrightarrow> exit_calls (emit_done k hn s) = [0]"
proof (induction k arbitrary: s)
  case 0
  then show ?case by simp
next
  case (Suc k)
  let ?s1 = "snd (checkHandlersDone hn s)"
  show ?case
  proof (cases "fst (checkHandlersDone hn s)")
    case True
    then have ex: "exit_calls ?s1 = [0]"
      using Suc.prems(1) by (simp add: checkHandlersDone_exit exited_def)
    then have "exited ?s1" by (simp add: exited_def)
    then have "emit_done k hn ?s1 = ?s1" by (cases k) simp_all
    with Suc.prems(1) ex show ?thesis by simp
  next
    case False
    then have nd: "\<not> isFullyDrained ?s1"
      using checkHandlersDone_result [of hn s] by simp
    from False Suc.prems(1) have ne: "\<not> exited ?s1"
      by (simp add: checkHandlersDone_exit exited_def)
    from Suc.prems have "isFullyDrained (emit_done k hn ?s1)" by simp
    from Suc.IH [OF ne nd this] Suc.prems(1) show ?thesis by simp
  qed
qed

lemma done_callback_drained:
  "\<not> exited s \<Longrightarrow> \<not> isFullyDrained s \<Longrightarrow> isFullyDrained (done_callback n s)
     \<Longrightarrow> exit_calls (done_callback n s) = [0]"
  by (simp add: done_callback_def emit_done_drained)

lemma default_exit_timeout_not_drained:
  "\<not> isFullyDrained s \<Longrightarrow> default_exit_timeout s = process_exit 1 (log TimedOutWaiting s)"
  by (simp add: default_exit_timeout_def checkHandlersDone_Undefined)

lemma default_exit_timeout_drained:
  "isFullyDrained s \<Longrightarrow> default_exit_timeout s = process_exit 0 s"
  by (simp add: default_exit_timeout_def checkHandlersDone_Undefined)

subsection \<open>The timeout policy\<close>

lemma since_reset_snoc:
  "since_reset (es @ [e]) = (if e = CallReset then [] else since_reset es @ [e])"
  by (simp add: since_reset_def)

lemma map_filter_snoc:
  "List.map_filter f (xs @ [x]) = List.map_filter f xs @ (case f x of None \<Rightarrow> [] | Some y \<Rightarrow> [y])"
  by (simp add: List.map_filter_def split: option.splits)

lemma handler_timeout_max_nonneg: "0 \<le> handler_timeout_max es"
  by (simp add: handler_timeout_max_def)

lemma handler_timeout_max_snoc:
  "handler_timeout_max (es @ [e]) =
     (if e = CallReset then 0
      else (case requested_timeout e of
              None \<Rightarrow> handler_timeout_max es
            | Some n \<Rightarrow> max n (handler_timeout_max es)))"
proof (cases "e = CallReset")
  case True
  then show ?thesis by (simp add: handler_timeout_max_def since_reset_snoc)
next
  case False
  show ?thesis
  proof (cases "requested_timeout e")
    case None
    with False show ?thesis
      by (simp add: handler_timeout_max_def since_reset_snoc map_filter_snoc)
  next
    case (Some n)
    let ?A = "set (0 # List.map_filter requested_timeout (since_reset es))"
    have "Max (insert n ?A) = max n (Max ?A)"
      by (rule Max_insert) simp_all
    with False Some show ?thesis
      by (simp add: handler_timeout_max_def since_reset_snoc map_filter_snoc insert_commute)
  qed
qed

lemma global_override_snoc:
  "global_override (es @ [e]) =
     (if e = CallReset then None
      else (case override_call e of
              None \<Rightarrow> global_override es
            | Some m \<Rightarrow> override_value m))"
  by (simp add: global_override_def since_reset_snoc map_filter_snoc Let_def split: option.splits)

lemma run_snoc: "run (es @ [e]) s = step e (run es s)"
  by (simp add: run_def)

lemma step_exited: "exited s \<Longrightarrow> step e s = s"
  by (simp add: step_def)

lemma run_exited: "exited s \<Longrightarrow> run es s = s"
  by (induction es) (simp_all add: run_def step_exited)

lemma not_exited_prefix: "\<not> exited (run (es @ es') s) \<Longrightarrow> \<not> exited (run es s)"
  using run_exited [of "run es s" es'] by (auto simp: run_def)

lemma init_timeouts [simp]:
  "max_timeout (init s) = Num 0" "max_handler_timeout (init s) = Num 0"
  by (simp_all add: init_def Let_def clearTimeout_def split: option.splits)

lemma addTidyExitHandler_max_handler_timeout:
  "max_handler_timeout (addTidyExitHandler h desc timeout s) =
     (if js_gt timeout (max_handler_timeout s) then timeout else max_handler_timeout s)"
  by (simp add: addTidyExitHandler_def Let_def)

text \<open>How one event moves the two timeout variables.\<close>

lemma step_max_timeout:
  "\<not> exited s \<Longrightarrow>
   max_timeout (step e s) =
     (case e of CallSetMaxTimeout timeout \<Rightarrow> timeout | CallReset \<Rightarrow> Num 0 | _ \<Rightarrow> max_timeout s)"
  by (cases e; simp add: step_def setMaxTimeout_def setLogger_def)

lemma step_max_handler_timeout:
  "\<not> exited s \<Longrightarrow>
   max_handler_timeout (step e s) =
     (case e of
        CallAddTidyExitHandler h desc timeout \<Rightarrow>
          (if js_gt timeout (max_handler_timeout s) then timeout else max_handler_timeout s)
      | CallReset \<Rightarrow> Num 0
      | _ \<Rightarrow> max_handler_timeout s)"
  by (cases e; simp add: step_def setMaxTimeout_def setLogger_def addTidyExitHandler_max_handler_timeout)

lemma loaded_timeouts [simp]:
  "max_timeout (loaded ls thr) = Num 0" "max_handler_timeout (loaded ls thr) = Num 0"
  by (simp_all add: loaded_def)

lemma tracked_timeouts:
  "\<not> exited (run es (loaded ls thr)) \<Longrightarrow>
   max_handler_timeout (run es (loaded ls thr)) = Num (handler_timeout_max es)
   \<and> override_value (max_timeout (run es (loaded ls thr))) = global_override es"
proof (induction es rule: rev_induct)
  case Nil
  show ?case
    by (simp add: run_def handler_timeout_max_def global_override_def since_reset_def)
next
  case (snoc e es)
  let ?s = "run es (loaded ls thr)"
  from snoc.prems have alive: "\<not> exited ?s" by (rule not_exited_prefix)
  with snoc.IH have H: "max_handler_timeout ?s = Num (handler_timeout_max es)"
    and M: "override_value (max_timeout ?s) = global_override es" by simp_all
  have nn: "0 \<le> handler_timeout_max es" by (rule handler_timeout_max_nonneg)
  have "max_handler_timeout (step e ?s) = Num (handler_timeout_max (es @ [e]))"
  proof (cases e)
    case (CallAddTidyExitHandler h desc timeout)
    with alive H nn show ?thesis
      by (cases timeout)
         (auto simp: step_max_handler_timeout handler_timeout_max_snoc js_gt_def max_def)
  qed (use alive H in \<open>simp_all add: step_max_handler_timeout handler_timeout_max_snoc\<close>)
  moreover have "override_value (max_timeout (step e ?s)) = global_override (es @ [e])"
    using alive M by (cases e) (simp_all add: step_max_timeout global_override_snoc)
  ultimately show ?case by (simp add: run_snoc)
qed

lemma getTimeout_resolve:
  assumes "max_handler_timeout s = Num h" and "0 \<le> h"
  shows "getTimeout s = Num (resolveTimeout h (override_value (max_timeout s)))"
  using assms
  by (cases "max_timeout s")
     (auto simp: getTimeout_def resolveTimeout_def js_gt_def DEFAULT_GRACEFUL_TIMEOUT_def)

lemma loaded_not_exited [simp]: "\<not> exited (loaded ls thr)"
  by (simp add: loaded_def fresh_def init_def cleanupExitListeners_def clearTimeout_def exited_def)

lemma step_config_exited [simp]:
  "exited (step (CallAddTidyExitHandler h desc timeout) s) = exited s"
  "exited (step (CallSetMaxTimeout timeout) s) = exited s"
  by (simp_all add: step_def exited_def setMaxTimeout_def)

subsection \<open>The process exits at most once\<close>

lemma exits_once_cong: "exit_calls a = exit_calls b \<Longrightarrow> exits_once a = exits_once b"
  by (simp add: exits_once_def)

lemma exits_once_update [simp]:
  "exits_once (s\<lparr>timers := a1\<rparr>) = exits_once s"
  "exits_once (s\<lparr>next_timer := a2\<rparr>) = exits_once s"
  "exits_once (s\<lparr>default_exit_timer := a3\<rparr>) = exits_once s"
  "exits_once (s\<lparr>apps := a4\<rparr>) = exits_once s"
  "exits_once (s\<lparr>servers := a5\<rparr>) = exits_once s"
  "exits_once (s\<lparr>handler_callback_registry := a6\<rparr>) = exits_once s"
  "exits_once (s\<lparr>log_calls := a7\<rparr>) = exits_once s"
  "exits_once (s\<lparr>invocations := a8\<rparr>) = exits_once s"
  "exits_once (s\<lparr>tidyExit_listeners := a9\<rparr>) = exits_once s"
  "exits_once (s\<lparr>registered_handlers_count := b1\<rparr>) = exits_once s"
  "exits_once (s\<lparr>broadcasts := b2\<rparr>) = exits_once s"
  "exits_once (s\<lparr>process_listeners := b3\<rparr>) = exits_once s"
  "exits_once (s\<lparr>done_listeners := b4\<rparr>) = exits_once s"
  by (simp_all add: exits_once_def)

lemma not_exited_exits_once: "\<not> exited s \<Longrightarrow> exits_once s"
  by (simp add: exits_once_def exited_def)

lemma checkHandlersDone_exits_once:
  "\<not> exited s \<Longrightarrow> exits_once (snd (checkHandlersDone hn s))"
  by (simp add: checkHandlersDone_exit exited_def exits_once_def)

lemma emit_done_exits_once:
  "exits_once s \<Longrightarrow> exits_once (emit_done k hn s)"
  by (induction k arbitrary: s) (simp_all add: checkHandlersDone_exits_once)

lemma done_callback_exits_once:
  "exits_once s \<Longrightarrow> exits_once (done_callback n s)"
  by (simp add: done_callback_def emit_done_exits_once)

lemma funpow_done_callback_exits_once:
  "exits_once s \<Longrightarrow> exits_once ((done_callback n ^^ k) s)"
  by (induction k) (simp_all add: done_callback_exits_once)

lemma default_exit_timeout_exits_once:
  "\<not> exited s \<Longrightarrow> exits_once (default_exit_timeout s)"
  by (simp add: default_exit_timeout_def checkHandlersDone_Undefined process_exit_def log_def exited_def
        exits_once_def)

lemma defaultExitHandler_exits_once:
  "exits_once s \<Longrightarrow> exits_once (defaultExitHandler n s)"
  by (simp add: defaultExitHandler_def setTimeout_def Let_def done_callback_exits_once)

lemma call_handler_exits_once:
  "exits_once s \<Longrightarrow> exits_once (call_handler h n s)"
  by (cases h)
     (simp_all add: call_handler_def funpow_done_callback_exits_once defaultExitHandler_exits_once
        done_callback_exits_once)

lemma tidy_exit_listener_exits_once:
  "exits_once s \<Longrightarrow> exits_once (tidy_exit_listener src t s)"
  by (cases t) (simp add: tidy_exit_listener_def Let_def log_def call_handler_exits_once)

lemma emit_tidyExit_exits_once:
  "exits_once s \<Longrightarrow> exits_once (emit_tidyExit src ts s)"
  by (induction ts arbitrary: s) (simp_all add: tidy_exit_listener_exits_once)

lemma emittidyExitEvent_exits_once:
  "exits_once s \<Longrightarrow> exits_once (emittidyExitEvent src s)"
proof -
  assume a: "exits_once s"
  have "exits_once (registerDefaultTimeoutHandler s)"
    using a by (simp cong: exits_once_cong)
  then show ?thesis
    by (simp add: emittidyExitEvent_def Let_def emit_tidyExit_exits_once)
qed

lemma exit_listener_exits_once:
  "exits_once s \<Longrightarrow> exits_once (exit_listener sg m s)"
  by (cases sg) (simp_all add: exit_listener_def emittidyExitEvent_exits_once)

lemma fire_listeners_exits_once:
  "exits_once s \<Longrightarrow> exits_once (fire_listeners sg m hs s)"
  by (induction hs arbitrary: s) (simp_all add: exit_listener_exits_once)

lemma removeListener_exit_calls [simp]: "exit_calls (removeListener sg h s) = exit_calls s"
  by (simp add: removeListener_def log_def)

lemma fold_removeListener_exit_calls [simp]:
  "exit_calls (fold (removeListener sg) hs s) = exit_calls s"
  by (induction hs arbitrary: s) simp_all

lemma cleanup_signal_exit_calls [simp]: "exit_calls (cleanup_signal sg s) = exit_calls s"
  by (simp add: cleanup_signal_def Let_def split: option.splits)

lemma cleanupExitListeners_exit_calls [simp]: "exit_calls (cleanupExitListeners s) = exit_calls s"
  by (simp add: cleanupExitListeners_def SYSTEM_EXIT_SIGNALS_def split: option.splits)

lemma init_exit_calls [simp]: "exit_calls (init s) = exit_calls s"
  by (simp add: init_def Let_def clearTimeout_def split: option.splits)

lemma step_exits_once:
  assumes "exits_once s"
  shows "exits_once (step e s)"
proof (cases "exited s")
  case True
  with assms show ?thesis by (simp add: step_def)
next
  case False
  have same: "exits_once s'" if "exit_calls s' = exit_calls s" for s'
    using assms that by (simp add: exits_once_def)
  from False show ?thesis
    by (cases e)
       (simp_all add: step_def process_emit_def fire_listeners_exits_once done_callback_exits_once
          timer_expires_def default_exit_timeout_exits_once setMaxTimeout_def setLogger_def
          assms same exited_def)
qed

lemma run_exits_once:
  "exits_once s \<Longrightarrow> exits_once (run es s)"
  by (induction es arbitrary: s) (simp_all add: run_def step_exits_once)

subsection \<open>Bound listeners are tracked\<close>

lemma listeners_tracked_cong:
  "process_listeners a = process_listeners b \<Longrightarrow> next_listener a = next_listener b \<Longrightarrow>
   exit_signal_handlers a = exit_signal_handlers b \<Longrightarrow> listening_to_exit a = listening_to_exit b \<Longrightarrow>
   listeners_tracked a = listeners_tracked b"
  by (simp add: listeners_tracked_def tracked_def)

lemma tracked_addExitHandler:
  "tracked (addExitHandler sg s) sg' =
     (if sg' = sg then tracked s sg @ [next_listener s] else tracked s sg')"
  by (simp add: tracked_def addExitHandler_def Let_def split: option.splits)

lemma addExitHandler_listeners:
  "process_listeners (addExitHandler sg s) = process_listeners s @ [(sg, next_listener s)]"
  "next_listener (addExitHandler sg s) = Suc (next_listener s)"
  by (simp_all add: addExitHandler_def Let_def)

lemma tracked_None: "exit_signal_handlers s = None \<Longrightarrow> tracked s sg = []"
  by (simp add: tracked_def)

lemma addExitHandler_listening [simp]:
  "listening_to_exit (addExitHandler sg s) = listening_to_exit s"
  by (simp add: addExitHandler_def Let_def)

lemma addExitHandler_handlers_defined [simp]:
  "exit_signal_handlers (addExitHandler sg s) \<noteq> None"
  by (simp add: addExitHandler_def Let_def)

lemma addExitHandler_tracked:
  "listeners_tracked s \<Longrightarrow> listeners_tracked (addExitHandler sg s)"
  unfolding listeners_tracked_def
  by (auto simp: tracked_addExitHandler addExitHandler_listeners less_Suc_eq)

lemma registerExitListeners_tracked:
  "listeners_tracked s \<Longrightarrow> listeners_tracked (registerExitListeners s)"
proof -
  assume lt: "listeners_tracked s"
  let ?s4 = "addExitHandler SIGBREAK (addExitHandler SIGINT (addExitHandler SIGTERM (addExitHandler Message s)))"
  from lt have "listeners_tracked ?s4" by (intro addExitHandler_tracked)
  moreover have "exit_signal_handlers ?s4 \<noteq> None" by simp
  ultimately have "listeners_tracked (?s4\<lparr>listening_to_exit := True\<rparr>)"
    unfolding listeners_tracked_def by (simp add: tracked_def)
  with lt show ?thesis
    by (simp add: registerExitListeners_def SYSTEM_EXIT_SIGNALS_def)
qed

lemma remove1_tracked:
  "listeners_tracked s \<Longrightarrow> listeners_tracked (s\<lparr>process_listeners := remove1 p (process_listeners s)\<rparr>)"
  unfolding listeners_tracked_def
  by (auto simp: tracked_def dest: notin_set_remove1)

lemma removeListener_listeners [simp]:
  "process_listeners (removeListener sg h s) = remove1 (sg, h) (process_listeners s)"
  "next_listener (removeListener sg h s) = next_listener s"
  "exit_signal_handlers (removeListener sg h s) = exit_signal_handlers s"
  "listening_to_exit (removeListener sg h s) = listening_to_exit s"
  by (simp_all add: removeListener_def log_def remove1_idem)

lemma fold_removeListener_listeners [simp]:
  "process_listeners (fold (removeListener sg) hs s) =
     fold (\<lambda>h. remove1 (sg, h)) hs (process_listeners s)"
  "next_listener (fold (removeListener sg) hs s) = next_listener s"
  "exit_signal_handlers (fold (removeListener sg) hs s) = exit_signal_handlers s"
  "listening_to_exit (fold (removeListener sg) hs s) = listening_to_exit s"
  by (induction hs arbitrary: s; simp)+

lemma set_fold_remove1:
  "distinct l \<Longrightarrow> set (fold (\<lambda>h. remove1 (sg, h)) hs l) = set l - (\<lambda>h. (sg, h)) ` set hs"
  by (induction hs arbitrary: l) auto

lemma distinct_fold_remove1:
  "distinct l \<Longrightarrow> distinct (fold (\<lambda>h. remove1 (sg, h)) hs l)"
  by (induction hs arbitrary: l) auto

lemma tracked_cleanup_signal:
  "tracked (cleanup_signal sg s) sg' = (if sg' = sg then [] else tracked s sg')"
  by (simp add: tracked_def cleanup_signal_def Let_def split: option.splits)

lemma cleanup_signal_listeners:
  "process_listeners (cleanup_signal sg s) =
     fold (\<lambda>h. remove1 (sg, h)) (tracked s sg) (process_listeners s)"
  "next_listener (cleanup_signal sg s) = next_listener s"
  "listening_to_exit (cleanup_signal sg s) = listening_to_exit s"
  "(exit_signal_handlers (cleanup_signal sg s) = None) = (exit_signal_handlers s = None)"
  by (simp_all add: tracked_def cleanup_signal_def Let_def split: option.splits)

text \<open>Cleaning up one signal unbinds all its listeners and keeps the others tracked.\<close>

lemma cleanup_signal_tracked:
  assumes "listeners_tracked s"
  shows "listeners_tracked (cleanup_signal sg s)"
    and "set (process_listeners (cleanup_signal sg s)) \<subseteq> {p \<in> set (process_listeners s). fst p \<noteq> sg}"
proof -
  from assms have d: "distinct (process_listeners s)"
    and t: "\<And>p. p \<in> set (process_listeners s) \<Longrightarrow>
               snd p \<in> set (tracked s (fst p)) \<and> snd p < next_listener s"
    and n: "exit_signal_handlers s = None \<longrightarrow> \<not> listening_to_exit s"
    by (simp_all add: listeners_tracked_def)
  have rest: "set (process_listeners (cleanup_signal sg s)) =
                set (process_listeners s) - (\<lambda>h. (sg, h)) ` set (tracked s sg)"
    by (simp add: cleanup_signal_listeners set_fold_remove1 [OF d])
  show "set (process_listeners (cleanup_signal sg s)) \<subseteq> {p \<in> set (process_listeners s). fst p \<noteq> sg}"
  proof
    fix p assume "p \<in> set (process_listeners (cleanup_signal sg s))"
    with rest have in_l: "p \<in> set (process_listeners s)"
      and not_rm: "p \<notin> (\<lambda>h. (sg, h)) ` set (tracked s sg)" by auto
    have "fst p \<noteq> sg"
    proof
      assume "fst p = sg"
      with t [OF in_l] have "snd p \<in> set (tracked s sg)" by simp
      then have "(sg, snd p) \<in> (\<lambda>h. (sg, h)) ` set (tracked s sg)" by (rule imageI)
      with \<open>fst p = sg\<close> not_rm show False by (cases p) simp
    qed
    with in_l show "p \<in> {p \<in> set (process_listeners s). fst p \<noteq> sg}" by simp
  qed
  then have sub: "\<And>p. p \<in> set (process_listeners (cleanup_signal sg s)) \<Longrightarrow>
                   p \<in> set (process_listeners s) \<and> fst p \<noteq> sg" by auto
  show "listeners_tracked (cleanup_signal sg s)"
    unfolding listeners_tracked_def
  proof (intro conjI ballI)
    fix p assume "p \<in> set (process_listeners (cleanup_signal sg s))"
    from sub [OF this] t
    show "snd p \<in> set (tracked (cleanup_signal sg s) (fst p))"
      and "snd p < next_listener (cleanup_signal sg s)"
      by (simp_all add: tracked_cleanup_signal cleanup_signal_listeners)
  next
    show "distinct (process_listeners (cleanup_signal sg s))"
      by (simp add: cleanup_signal_listeners distinct_fold_remove1 [OF d])
  next
    from n show "exit_signal_handlers (cleanup_signal sg s) = None \<longrightarrow>
                 \<not> listening_to_exit (cleanup_signal sg s)"
      by (simp add: cleanup_signal_listeners)
  qed
qed

lemma cleanupExitListeners_unbinds:
  assumes "listeners_tracked s"
  shows "process_listeners (cleanupExitListeners s) = []"
proof (cases "exit_signal_handlers s")
  case None
  with assms have "process_listeners s = []"
    by (cases "process_listeners s") (auto simp: listeners_tracked_def tracked_None)
  with None show ?thesis by (simp add: cleanupExitListeners_def)
next
  case (Some tbl)
  let ?s1 = "cleanup_signal Message s"
  let ?s2 = "cleanup_signal SIGTERM ?s1"
  let ?s3 = "cleanup_signal SIGINT ?s2"
  let ?s4 = "cleanup_signal SIGBREAK ?s3"
  note t1 = cleanup_signal_tracked [OF assms, of Message]
  note t2 = cleanup_signal_tracked [OF t1(1), of SIGTERM]
  note t3 = cleanup_signal_tracked [OF t2(1), of SIGINT]
  note t4 = cleanup_signal_tracked [OF t3(1), of SIGBREAK]
  have "p \<notin> set (process_listeners ?s4)" for p
  proof
    assume "p \<in> set (process_listeners ?s4)"
    with t1(2) t2(2) t3(2) t4(2)
    have "fst p \<noteq> Message" "fst p \<noteq> SIGTERM" "fst p \<noteq> SIGINT" "fst p \<noteq> SIGBREAK"
      by blast+
    then show False by (cases "fst p") simp_all
  qed
  then have "process_listeners ?s4 = []" by (cases "process_listeners ?s4") auto
  with Some show ?thesis
    by (simp add: cleanupExitListeners_def SYSTEM_EXIT_SIGNALS_def)
qed

lemma listeners_tracked_update [simp]:
  "listeners_tracked (s\<lparr>tidyExit_listeners := a1\<rparr>) = listeners_tracked s"
  "listeners_tracked (s\<lparr>max_handler_timeout := a2\<rparr>) = listeners_tracked s"
  "listeners_tracked (s\<lparr>done_listeners := a3\<rparr>) = listeners_tracked s"
  "listeners_tracked (s\<lparr>registered_handlers_count := a4\<rparr>) = listeners_tracked s"
  "listeners_tracked (s\<lparr>broadcasts := a5\<rparr>) = listeners_tracked s"
  "listeners_tracked (s\<lparr>apps := a6\<rparr>) = listeners_tracked s"
  "listeners_tracked (s\<lparr>timers := a7\<rparr>) = listeners_tracked s"
  "listeners_tracked (s\<lparr>max_timeout := a8\<rparr>) = listeners_tracked s"
  "listeners_tracked (s\<lparr>log_fn := a9\<rparr>) = listeners_tracked s"
  "listeners_tracked (s\<lparr>handler_callback_registry := b1\<rparr>) = listeners_tracked s"
  by (simp_all add: listeners_tracked_def tracked_def)

lemma addTidyExitHandler_tracked:
  "listeners_tracked s \<Longrightarrow> listeners_tracked (addTidyExitHandler h desc timeout s)"
  by (simp add: addTidyExitHandler_def Let_def registerExitListeners_tracked)

lemma emit_tidyExit_tracked [simp]:
  "listeners_tracked (emit_tidyExit src ts s) = listeners_tracked s"
  by (rule listeners_tracked_cong) simp_all

lemma emittidyExitEvent_tracked:
  "listeners_tracked s \<Longrightarrow> listeners_tracked (emittidyExitEvent src s)"
  by (simp add: emittidyExitEvent_def registerDefaultTimeoutHandler_def Let_def addTidyExitHandler_tracked)

lemma exit_listener_tracked:
  "listeners_tracked s \<Longrightarrow> listeners_tracked (exit_listener sg m s)"
  by (cases sg) (simp_all add: exit_listener_def emittidyExitEvent_tracked)

lemma fire_listeners_tracked:
  "listeners_tracked s \<Longrightarrow> listeners_tracked (fire_listeners sg m hs s)"
  by (induction hs arbitrary: s) (simp_all add: exit_listener_tracked remove1_tracked)

lemma hookExpressApp_tracked:
  "listeners_tracked s \<Longrightarrow> listeners_tracked (snd (hookExpressApp app s))"
  by (simp add: hookExpressApp_def Let_def addTidyExitHandler_tracked)

lemma fold_detect_tracked:
  "listeners_tracked s \<Longrightarrow> listeners_tracked (fold detectAndHookExpressApp ls s)"
proof (induction ls arbitrary: s)
  case Nil
  then show ?case by simp
next
  case (Cons l ls)
  from Cons.prems have "listeners_tracked (detectAndHookExpressApp l s)"
    by (cases l) (simp_all add: detectAndHookExpressApp_def hookExpressApp_tracked)
  then show ?case by (simp add: Cons.IH)
qed

lemma hookHttpServer_tracked:
  "listeners_tracked s \<Longrightarrow> listeners_tracked (snd (hookHttpServer server hook_apps s))"
  by (simp add: hookHttpServer_def Let_def addTidyExitHandler_tracked fold_detect_tracked)

lemma cleanupExitListeners_tracked:
  assumes "listeners_tracked s"
  shows "listeners_tracked (cleanupExitListeners s)"
proof (cases "exit_signal_handlers s")
  case None
  with assms show ?thesis by (simp add: cleanupExitListeners_def)
next
  case (Some tbl)
  let ?s4 = "cleanup_signal SIGBREAK (cleanup_signal SIGINT (cleanup_signal SIGTERM (cleanup_signal Message s)))"
  from assms have "listeners_tracked ?s4" by (intro cleanup_signal_tracked(1))
  then have "listeners_tracked (?s4\<lparr>listening_to_exit := False\<rparr>)"
    by (simp add: listeners_tracked_def tracked_def)
  with Some show ?thesis by (simp add: cleanupExitListeners_def SYSTEM_EXIT_SIGNALS_def)
qed

lemma clearTimeout_listeners [simp]:
  "process_listeners (clearTimeout h s) = process_listeners s"
  "next_listener (clearTimeout h s) = next_listener s"
  "exit_signal_handlers (clearTimeout h s) = exit_signal_handlers s"
  "listening_to_exit (clearTimeout h s) = listening_to_exit s"
  by (simp_all add: clearTimeout_def split: option.splits)

lemma init_listeners:
  "process_listeners (init s) =
     process_listeners (cleanupExitListeners
       (s\<lparr>handler_callback_registry := [], registered_handlers_count := 0, tidyExit_listeners := [],
          done_listeners := 0, log_fn := DefaultLogger\<rparr>))"
  by (simp add: init_def Let_def)

lemma init_unbinds:
  "listeners_tracked s \<Longrightarrow> process_listeners (init s) = []"
  by (simp add: init_listeners cleanupExitListeners_unbinds)

lemma init_tracked:
  assumes "listeners_tracked s"
  shows "listeners_tracked (init s)"
proof -
  let ?s1 = "s\<lparr>handler_callback_registry := [], registered_handlers_count := 0, tidyExit_listeners := [],
          done_listeners := 0, log_fn := DefaultLogger\<rparr>"
  from assms have "listeners_tracked ?s1" by simp
  then have "listeners_tracked (cleanupExitListeners ?s1)" by (rule cleanupExitListeners_tracked)
  moreover have "listeners_tracked (init s) = listeners_tracked (cleanupExitListeners ?s1)"
    by (rule listeners_tracked_cong) (simp_all add: init_def Let_def)
  ultimately show ?thesis by simp
qed

lemma step_tracked:
  assumes "listeners_tracked s"
  shows "listeners_tracked (step e s)"
proof (cases "exited s")
  case True
  with assms show ?thesis by (simp add: step_def)
next
  case False
  have same: "listeners_tracked s'"
    if "process_listeners s' = process_listeners s" "next_listener s' = next_listener s"
       "exit_signal_handlers s' = exit_signal_handlers s" "listening_to_exit s' = listening_to_exit s"
    for s'
    using assms listeners_tracked_cong [OF that] by simp
  from False show ?thesis
    by (cases e)
       (simp_all add: step_def assms addTidyExitHandler_tracked setMaxTimeout_def setLogger_def
          init_tracked hookExpressApp_tracked hookHttpServer_tracked process_emit_def
          fire_listeners_tracked same)
qed

lemma fresh_tracked: "listeners_tracked (fresh ls thr)"
  by (simp add: listeners_tracked_def fresh_def)

lemma loaded_tracked: "listeners_tracked (loaded ls thr)"
  by (simp add: loaded_def init_tracked fresh_tracked)

lemma run_tracked: "listeners_tracked s \<Longrightarrow> listeners_tracked (run es s)"
  by (induction es arbitrary: s) (simp_all add: run_def step_tracked)

subsection \<open>The only pending timer is the safety-net timer\<close>

lemma timers_owned_cong:
  "timers a = timers b \<Longrightarrow> default_exit_timer a = default_exit_timer b \<Longrightarrow>
   timers_owned a = timers_owned b"
  by (simp add: timers_owned_def)

lemma timers_owned_update [simp]:
  "timers_owned (s\<lparr>tidyExit_listeners := a1\<rparr>) = timers_owned s"
  "timers_owned (s\<lparr>handler_callback_registry := a2\<rparr>) = timers_owned s"
  "timers_owned (s\<lparr>log_calls := a3\<rparr>) = timers_owned s"
  "timers_owned (s\<lparr>invocations := a4\<rparr>) = timers_owned s"
  "timers_owned (s\<lparr>apps := a5\<rparr>) = timers_owned s"
  "timers_owned (s\<lparr>servers := a6\<rparr>) = timers_owned s"
  "timers_owned (s\<lparr>registered_handlers_count := a7\<rparr>) = timers_owned s"
  "timers_owned (s\<lparr>broadcasts := a8\<rparr>) = timers_owned s"
  "timers_owned (s\<lparr>process_listeners := a9\<rparr>) = timers_owned s"
  "timers_owned (s\<lparr>max_timeout := b1\<rparr>) = timers_owned s"
  "timers_owned (s\<lparr>log_fn := b2\<rparr>) = timers_owned s"
  by (simp_all add: timers_owned_def)

lemma done_callback_owned [simp]: "timers_owned (done_callback n s) = timers_owned s"
  by (rule timers_owned_cong) simp_all

lemma funpow_done_callback_owned [simp]: "timers_owned ((done_callback n ^^ k) s) = timers_owned s"
  by (rule timers_owned_cong) simp_all

lemma defaultExitHandler_owned:
  assumes "timers_owned s"
  shows "timers_owned (defaultExitHandler n s)"
proof (cases "default_exit_timer s")
  case None
  with assms have "timers s = []"
    by (cases "timers s") (auto simp: timers_owned_def)
  with None show ?thesis
    by (simp add: defaultExitHandler_def setTimeout_def Let_def) (simp add: timers_owned_def)
next
  case (Some t)
  with assms show ?thesis by (simp add: defaultExitHandler_def)
qed

lemma call_handler_owned:
  "timers_owned s \<Longrightarrow> timers_owned (call_handler h n s)"
  by (cases h) (simp_all add: call_handler_def defaultExitHandler_owned)

lemma tidy_exit_listener_owned:
  "timers_owned s \<Longrightarrow> timers_owned (tidy_exit_listener src t s)"
  by (cases t) (simp add: tidy_exit_listener_def Let_def log_def call_handler_owned)

lemma emit_tidyExit_owned:
  "timers_owned s \<Longrightarrow> timers_owned (emit_tidyExit src ts s)"
  by (induction ts arbitrary: s) (simp_all add: tidy_exit_listener_owned)

lemma emittidyExitEvent_owned:
  assumes "timers_owned s"
  shows "timers_owned (emittidyExitEvent src s)"
proof -
  have "timers_owned (registerDefaultTimeoutHandler s) = timers_owned s"
    by (rule timers_owned_cong) simp_all
  with assms show ?thesis
    by (simp add: emittidyExitEvent_def Let_def emit_tidyExit_owned)
qed

lemma exit_listener_owned:
  "timers_owned s \<Longrightarrow> timers_owned (exit_listener sg m s)"
  by (cases sg) (simp_all add: exit_listener_def emittidyExitEvent_owned)

lemma fire_listeners_owned:
  "timers_owned s \<Longrightarrow> timers_owned (fire_listeners sg m hs s)"
  by (induction hs arbitrary: s) (simp_all add: exit_listener_owned)

lemma timer_expires_owned:
  assumes "timers_owned s"
  shows "timers_owned (timer_expires t s)"
proof -
  from assms have "timers_owned (s\<lparr>timers := filter (\<lambda>p. fst p \<noteq> t) (timers s)\<rparr>)"
    by (simp add: timers_owned_def)
  moreover have "timers_owned (default_exit_timeout s') = timers_owned s'" for s'
    by (rule timers_owned_cong) simp_all
  ultimately show ?thesis using assms by (simp add: timer_expires_def)
qed

lemma cleanupExitListeners_timers [simp]:
  "timers (cleanupExitListeners s) = timers s"
  "default_exit_timer (cleanupExitListeners s) = default_exit_timer s"
proof -
  have rm: "timers (removeListener sg h s') = timers s'
          \<and> default_exit_timer (removeListener sg h s') = default_exit_timer s'" for sg h s'
    by (simp add: removeListener_def log_def)
  have fr: "timers (fold (removeListener sg) hs s') = timers s'
          \<and> default_exit_timer (fold (removeListener sg) hs s') = default_exit_timer s'" for sg hs s'
    by (induction hs arbitrary: s') (simp_all add: rm)
  have cs: "timers (cleanup_signal sg s') = timers s'
          \<and> default_exit_timer (cleanup_signal sg s') = default_exit_timer s'" for sg s'
    by (simp add: cleanup_signal_def Let_def fr split: option.splits)
  show "timers (cleanupExitListeners s) = timers s"
    and "default_exit_timer (cleanupExitListeners s) = default_exit_timer s"
    by (simp_all add: cleanupExitListeners_def SYSTEM_EXIT_SIGNALS_def cs split: option.splits)
qed

lemma init_timers:
  "timers (init s) =
     (case default_exit_timer s of None \<Rightarrow> timers s | Some t \<Rightarrow> filter (\<lambda>p. fst p \<noteq> t) (timers s))"
  "default_exit_timer (init s) = None"
  by (simp_all add: init_def Let_def clearTimeout_def split: option.splits)

lemma init_clears_timers:
  assumes "timers_owned s"
  shows "timers (init s) = []"
proof (cases "default_exit_timer s")
  case None
  with assms have "timers s = []"
    by (cases "timers s") (auto simp: timers_owned_def)
  with None show ?thesis by (simp add: init_timers)
next
  case (Some t)
  with assms show ?thesis
    by (auto simp: init_timers timers_owned_def filter_empty_conv)
qed

lemma init_owned: "timers_owned (init s)" if "timers_owned s"
  using init_clears_timers [OF that] by (simp add: timers_owned_def)

lemma step_owned:
  assumes "timers_owned s"
  shows "timers_owned (step e s)"
proof (cases "exited s")
  case True
  with assms show ?thesis by (simp add: step_def)
next
  case False
  have same: "timers_owned s'"
    if "timers s' = timers s" "default_exit_timer s' = default_exit_timer s" for s'
    using assms timers_owned_cong [OF that] by simp
  from False show ?thesis
    by (cases e)
       (simp_all add: step_def assms setMaxTimeout_def setLogger_def init_owned process_emit_def
          fire_listeners_owned timer_expires_owned same)
qed

lemma fresh_owned: "timers_owned (fresh ls thr)"
  by (simp add: timers_owned_def fresh_def)

lemma loaded_owned: "timers_owned (loaded ls thr)"
  by (simp add: loaded_def init_owned fresh_owned)

lemma run_owned: "timers_owned s \<Longrightarrow> timers_owned (run es s)"
  by (induction es arbitrary: s) (simp_all add: run_def step_owned)

subsection \<open>Reset\<close>

lemma all_signals_cleared:
  "tbl(Message := None, SIGTERM := None, SIGINT := None, SIGBREAK := None) = Map.empty"
proof
  fix sg :: signal
  show "(tbl(Message := None, SIGTERM := None, SIGINT := None, SIGBREAK := None)) sg = None"
    by (cases sg) simp_all
qed

lemma cleanup_signal_handlers:
  "exit_signal_handlers (cleanup_signal sg s) =
     map_option (\<lambda>tbl. tbl(sg := None)) (exit_signal_handlers s)"
  by (simp add: cleanup_signal_def Let_def split: option.splits)

lemma cleanupExitListeners_handlers:
  "exit_signal_handlers (cleanupExitListeners s) =
     map_option (\<lambda>tbl. Map.empty) (exit_signal_handlers s)"
  "listening_to_exit (cleanupExitListeners s) =
     (if exit_signal_handlers s = None then listening_to_exit s else False)"
  by (auto simp: cleanupExitListeners_def SYSTEM_EXIT_SIGNALS_def cleanup_signal_handlers
        all_signals_cleared split: option.splits)

lemma removeListener_other [simp]:
  "handler_callback_registry (removeListener sg h s) = handler_callback_registry s"
  "registered_handlers_count (removeListener sg h s) = registered_handlers_count s"
  "tidyExit_listeners (removeListener sg h s) = tidyExit_listeners s"
  "done_listeners (removeListener sg h s) = done_listeners s"
  "log_fn (removeListener sg h s) = log_fn s"
  by (simp_all add: removeListener_def log_def)

lemma fold_removeListener_other [simp]:
  "handler_callback_registry (fold (removeListener sg) hs s) = handler_callback_registry s"
  "registered_handlers_count (fold (removeListener sg) hs s) = registered_handlers_count s"
  "tidyExit_listeners (fold (removeListener sg) hs s) = tidyExit_listeners s"
  "done_listeners (fold (removeListener sg) hs s) = done_listeners s"
  "log_fn (fold (removeListener sg) hs s) = log_fn s"
  by (induction hs arbitrary: s; simp)+

lemma cleanup_signal_other [simp]:
  "handler_callback_registry (cleanup_signal sg s) = handler_callback_registry s"
  "registered_handlers_count (cleanup_signal sg s) = registered_handlers_count s"
  "tidyExit_listeners (cleanup_signal sg s) = tidyExit_listeners s"
  "done_listeners (cleanup_signal sg s) = done_listeners s"
  "log_fn (cleanup_signal sg s) = log_fn s"
  by (simp_all add: cleanup_signal_def Let_def split: option.splits)

lemma cleanupExitListeners_other [simp]:
  "handler_callback_registry (cleanupExitListeners s) = handler_callback_registry s"
  "registered_handlers_count (cleanupExitListeners s) = registered_handlers_count s"
  "tidyExit_listeners (cleanupExitListeners s) = tidyExit_listeners s"
  "done_listeners (cleanupExitListeners s) = done_listeners s"
  "log_fn (cleanupExitListeners s) = log_fn s"
  by (simp_all add: cleanupExitListeners_def SYSTEM_EXIT_SIGNALS_def split: option.splits)

text \<open>What a reset leaves behind, and that a state of this shape is a fixed point.\<close>

lemma init_result:
  "handler_callback_registry (init s) = []"
  "registered_handlers_count (init s) = 0"
  "tidyExit_listeners (init s) = []"
  "done_listeners (init s) = 0"
  "log_fn (init s) = DefaultLogger"
  "exit_signal_handlers (init s) = map_option (\<lambda>tbl. Map.empty) (exit_signal_handlers s)"
  "listening_to_exit (init s) = (if exit_signal_handlers s = None then listening_to_exit s else False)"
  by (simp_all add: init_def Let_def clearTimeout_def cleanupExitListeners_handlers split: option.splits)

lemma cleanup_signal_cleared:
  "exit_signal_handlers s = Some Map.empty \<Longrightarrow> cleanup_signal sg s = s"
  by (cases s) (simp add: cleanup_signal_def)

lemma init_fixed:
  assumes "handler_callback_registry s = []" "registered_handlers_count s = 0"
    "tidyExit_listeners s = []" "done_listeners s = 0" "log_fn s = DefaultLogger"
    "max_timeout s = Num 0" "max_handler_timeout s = Num 0" "default_exit_timer s = None"
    "exit_signal_handlers s = None \<or> exit_signal_handlers s = Some Map.empty \<and> \<not> listening_to_exit s"
  shows "init s = s"
proof -
  have "cleanupExitListeners s = s"
  proof (cases "exit_signal_handlers s")
    case None
    then show ?thesis by (simp add: cleanupExitListeners_def)
  next
    case (Some tbl)
    with assms(9) have e: "exit_signal_handlers s = Some Map.empty" and l: "\<not> listening_to_exit s"
      by simp_all
    from e have "cleanupExitListeners s = s\<lparr>listening_to_exit := False\<rparr>"
      by (simp add: cleanupExitListeners_def SYSTEM_EXIT_SIGNALS_def cleanup_signal_cleared)
    also from l have "\<dots> = s" by (cases s) simp
    finally show ?thesis .
  qed
  moreover have "s\<lparr>handler_callback_registry := [], registered_handlers_count := 0,
      tidyExit_listeners := [], done_listeners := 0, log_fn := DefaultLogger\<rparr> = s"
    using assms(1-5) by (cases s) simp
  moreover have "s\<lparr>max_timeout := Num 0, max_handler_timeout := Num 0\<rparr> = s"
    using assms(6,7) by (cases s) simp
  moreover have "s\<lparr>default_exit_timer := None\<rparr> = s"
    using assms(8) by (cases s) simp
  ultimately show ?thesis
    using assms(8) by (simp add: init_def Let_def clearTimeout_def)
qed

lemma init_idem: "init (init s) = init s"
  by (rule init_fixed) (auto simp: init_result init_timers)

subsection \<open>Every listener fires once\<close>

lemma single_fire_cong:
  "broadcasts a = broadcasts b \<Longrightarrow> process_listeners a = process_listeners b \<Longrightarrow>
   listening_to_exit a = listening_to_exit b \<Longrightarrow> single_fire n a = single_fire n b"
  by (simp add: single_fire_def cycles_def bound_listeners_def)

lemma single_fire_update [simp]:
  "single_fire b (s\<lparr>tidyExit_listeners := a1\<rparr>) = single_fire b s"
  "single_fire b (s\<lparr>max_handler_timeout := a2\<rparr>) = single_fire b s"
  "single_fire b (s\<lparr>apps := a3\<rparr>) = single_fire b s"
  "single_fire b (s\<lparr>max_timeout := a4\<rparr>) = single_fire b s"
  "single_fire b (s\<lparr>log_fn := a5\<rparr>) = single_fire b s"
  by (simp_all add: single_fire_def cycles_def bound_listeners_def)

lemma registerExitListeners_listening:
  "listening_to_exit s \<Longrightarrow> registerExitListeners s = s"
  by (simp add: registerExitListeners_def)

lemma registerExitListeners_binds:
  "\<not> listening_to_exit s \<Longrightarrow>
   process_listeners (registerExitListeners s) =
     process_listeners s @ [(Message, next_listener s), (SIGTERM, Suc (next_listener s)),
       (SIGINT, Suc (Suc (next_listener s))), (SIGBREAK, Suc (Suc (Suc (next_listener s))))]
   \<and> listening_to_exit (registerExitListeners s)"
  by (simp add: registerExitListeners_def SYSTEM_EXIT_SIGNALS_def addExitHandler_listeners)

lemma registerExitListeners_single_fire:
  assumes "single_fire b s"
  shows "single_fire b (registerExitListeners s)"
proof (cases "listening_to_exit s")
  case True
  with assms show ?thesis by (simp add: registerExitListeners_listening)
next
  case False
  with assms have e: "length (broadcasts s) = b" "process_listeners s = []"
    by (simp_all add: single_fire_def)
  have "bound_listeners sg (registerExitListeners s) = 1" for sg
    using registerExitListeners_binds [OF False] e
    by (cases sg) (simp_all add: bound_listeners_def)
  moreover have "cycles b sg (registerExitListeners s) = 0" for sg
    using e by (simp add: cycles_def)
  ultimately show ?thesis
    using registerExitListeners_binds [OF False] e by (simp add: single_fire_def)
qed

lemma addTidyExitHandler_single_fire:
  "single_fire b s \<Longrightarrow> single_fire b (addTidyExitHandler h desc timeout s)"
  by (simp add: addTidyExitHandler_def Let_def registerExitListeners_single_fire)

lemma addTidyExitHandler_listening:
  "listening_to_exit s \<Longrightarrow>
   process_listeners (addTidyExitHandler h desc timeout s) = process_listeners s
   \<and> listening_to_exit (addTidyExitHandler h desc timeout s)"
  by (simp add: addTidyExitHandler_def Let_def registerExitListeners_listening)

lemma emittidyExitEvent_listening:
  "listening_to_exit s \<Longrightarrow>
   process_listeners (emittidyExitEvent src s) = process_listeners s
   \<and> listening_to_exit (emittidyExitEvent src s)"
  using addTidyExitHandler_listening [of s DefaultExitHandler "Some ''default timeout handler''" Undefined]
  by (simp add: emittidyExitEvent_def registerDefaultTimeoutHandler_def Let_def)

lemma trigger_of_signal_name [simp]: "sg \<noteq> Message \<Longrightarrow> trigger_of (PStr (signal_name sg)) = sg"
  by (cases sg) (simp_all add: trigger_of_def)

lemma trigger_of_shutdown: "loose_eq_shutdown m \<Longrightarrow> trigger_of m = Message"
  by (cases m) (auto simp: trigger_of_def)

text \<open>A listener that has just been unbound may broadcast once.\<close>

lemma emittidyExitEvent_single_fire:
  assumes sf: "single_fire b s" and l: "listening_to_exit s"
    and fired: "bound_listeners (trigger_of src) s = 0" "cycles b (trigger_of src) s = 0"
  shows "single_fire b (emittidyExitEvent src s)"
proof -
  let ?s' = "emittidyExitEvent src s"
  from sf have le: "b \<le> length (broadcasts s)" by (simp add: single_fire_def)
  have bc: "broadcasts ?s' = broadcasts s @ [src]" by simp
  note keep = emittidyExitEvent_listening [OF l, of src]
  have "cycles b sg ?s' + bound_listeners sg ?s' \<le> 1" for sg
  proof (cases "sg = trigger_of src")
    case True
    with fired le show ?thesis
      by (simp add: cycles_def bound_listeners_def bc keep)
  next
    case False
    from sf l have "cycles b sg s + bound_listeners sg s \<le> 1" by (simp add: single_fire_def)
    with False le show ?thesis
      by (simp add: cycles_def bound_listeners_def bc keep)
  qed
  with le keep show ?thesis by (simp add: single_fire_def)
qed

lemma filter_remove1_other:
  "fst p \<noteq> sg \<Longrightarrow> filter (\<lambda>q. fst q = sg) (remove1 p l) = filter (\<lambda>q. fst q = sg) l"
  by (induction l) auto

lemma process_emit_single_fire:
  assumes sf: "single_fire b s" and alive: "\<not> exited s"
  shows "single_fire b (process_emit sg m s)"
proof (cases "filter (\<lambda>p. fst p = sg) (process_listeners s)")
  case Nil
  with sf show ?thesis by (simp add: process_emit_def)
next
  case (Cons p ps)
  then have nonempty: "process_listeners s \<noteq> []" by auto
  with sf have l: "listening_to_exit s" by (auto simp: single_fire_def split: if_splits)
  with sf have one: "cycles b sg s + bound_listeners sg s \<le> 1" by (simp add: single_fire_def)
  with Cons have ps: "ps = []" and c0: "cycles b sg s = 0"
    by (simp_all add: bound_listeners_def)
  from Cons have "p \<in> set (filter (\<lambda>p. fst p = sg) (process_listeners s))" by simp
  then have p: "fst p = sg" by simp
  then have p_eq: "(sg, snd p) = p" by (cases p) simp
  let ?s1 = "s\<lparr>process_listeners := remove1 p (process_listeners s)\<rparr>"
  have "filter (\<lambda>q. fst q = sg) (remove1 p (process_listeners s)) =
          remove1 p (filter (\<lambda>q. fst q = sg) (process_listeners s))"
    by (rule filter_remove1)
  with Cons ps have b0: "bound_listeners sg ?s1 = 0"
    by (simp add: bound_listeners_def)
  have other: "bound_listeners sg' ?s1 = bound_listeners sg' s" if "sg' \<noteq> sg" for sg'
    using that p by (simp add: bound_listeners_def filter_remove1_other)
  have cy: "cycles b sg' ?s1 = cycles b sg' s" for sg'
    by (simp add: cycles_def)
  have sf1: "single_fire b ?s1"
    unfolding single_fire_def
  proof (intro conjI)
    from sf show "b \<le> length (broadcasts ?s1)" by (simp add: single_fire_def)
    have "cycles b sg' ?s1 + bound_listeners sg' ?s1 \<le> 1" for sg'
    proof (cases "sg' = sg")
      case True
      with b0 c0 show ?thesis by (simp add: cy)
    next
      case False
      from sf l have "cycles b sg' s + bound_listeners sg' s \<le> 1" by (simp add: single_fire_def)
      with False show ?thesis by (simp add: cy other)
    qed
    with l show "if listening_to_exit ?s1
        then \<forall>sg. cycles b sg ?s1 + bound_listeners sg ?s1 \<le> 1
        else length (broadcasts ?s1) = b \<and> process_listeners ?s1 = []"
      by simp
  qed
  have l1: "listening_to_exit ?s1" using l by simp
  have fire: "single_fire b (exit_listener sg m ?s1)"
  proof (cases sg)
    case Message
    show ?thesis
    proof (cases "loose_eq_shutdown m")
      case True
      then have "trigger_of m = sg" using Message by (simp add: trigger_of_shutdown)
      with sf1 l1 b0 c0 True Message show ?thesis
        by (simp add: exit_listener_def emittidyExitEvent_single_fire cy)
    next
      case False
      with sf1 Message show ?thesis by (simp add: exit_listener_def)
    qed
  next
    case SIGTERM
    with sf1 l1 b0 c0 show ?thesis
      by (simp add: exit_listener_def emittidyExitEvent_single_fire cy trigger_of_def)
  next
    case SIGINT
    with sf1 l1 b0 c0 show ?thesis
      by (simp add: exit_listener_def emittidyExitEvent_single_fire cy trigger_of_def)
  next
    case SIGBREAK
    with sf1 l1 b0 c0 show ?thesis
      by (simp add: exit_listener_def emittidyExitEvent_single_fire cy trigger_of_def)
  qed
  from Cons ps alive p_eq have "process_emit sg m s = exit_listener sg m ?s1"
    by (simp add: process_emit_def)
  with fire show ?thesis by simp
qed

lemma hookExpressApp_single_fire:
  "single_fire b s \<Longrightarrow> single_fire b (snd (hookExpressApp app s))"
  by (simp add: hookExpressApp_def Let_def addTidyExitHandler_single_fire)

lemma fold_detect_single_fire:
  "single_fire b s \<Longrightarrow> single_fire b (fold detectAndHookExpressApp ls s)"
proof (induction ls arbitrary: s)
  case Nil
  then show ?case by simp
next
  case (Cons l ls)
  from Cons.prems have "single_fire b (detectAndHookExpressApp l s)"
    by (cases l) (simp_all add: detectAndHookExpressApp_def hookExpressApp_single_fire)
  then show ?case by (simp add: Cons.IH)
qed

lemma hookHttpServer_single_fire:
  "single_fire b s \<Longrightarrow> single_fire b (snd (hookHttpServer server hook_apps s))"
  by (simp add: hookHttpServer_def Let_def addTidyExitHandler_single_fire fold_detect_single_fire)

lemma step_single_fire:
  assumes "single_fire b s" and "e \<noteq> CallReset"
  shows "single_fire b (step e s)"
proof (cases "exited s")
  case True
  with assms show ?thesis by (simp add: step_def)
next
  case False
  have same: "single_fire b s'"
    if "broadcasts s' = broadcasts s" "process_listeners s' = process_listeners s"
       "listening_to_exit s' = listening_to_exit s" for s'
    using assms(1) single_fire_cong [OF that] by simp
  from False assms show ?thesis
    by (cases e)
       (simp_all add: step_def setMaxTimeout_def setLogger_def addTidyExitHandler_single_fire
          hookExpressApp_single_fire hookHttpServer_single_fire process_emit_single_fire same)
qed

lemma run_single_fire:
  "single_fire b s \<Longrightarrow> CallReset \<notin> set es \<Longrightarrow> single_fire b (run es s)"
  by (induction es arbitrary: s) (auto simp: run_def step_single_fire)

lemma init_broadcasts [simp]: "broadcasts (init s) = broadcasts s"
proof -
  have rm: "broadcasts (removeListener sg h s') = broadcasts s'" for sg h s'
    by (simp add: removeListener_def log_def)
  have fr: "broadcasts (fold (removeListener sg) hs s') = broadcasts s'" for sg hs s'
    by (induction hs arbitrary: s') (simp_all add: rm)
  have cs: "broadcasts (cleanup_signal sg s') = broadcasts s'" for sg s'
    by (simp add: cleanup_signal_def Let_def fr split: option.splits)
  have "broadcasts (cleanupExitListeners s') = broadcasts s'" for s'
    by (simp add: cleanupExitListeners_def SYSTEM_EXIT_SIGNALS_def cs split: option.splits)
  then show ?thesis
    by (simp add: init_def Let_def clearTimeout_def split: option.splits)
qed

text \<open>After a reset of a state whose listeners are tracked, every listener can fire afresh.\<close>

lemma init_single_fire:
  assumes "listeners_tracked s"
  shows "single_fire (length (broadcasts (init s))) (init s)"
proof -
  from assms have "exit_signal_handlers s = None \<longrightarrow> \<not> listening_to_exit s"
    by (simp add: listeners_tracked_def)
  then have "\<not> listening_to_exit (init s)" by (simp add: init_result)
  with init_unbinds [OF assms] show ?thesis by (simp add: single_fire_def)
qed

lemma single_fire_cycles:
  assumes "single_fire b s"
  shows "cycles b sg s \<le> 1"
proof (cases "listening_to_exit s")
  case True
  with assms have "cycles b sg s + bound_listeners sg s \<le> 1" by (simp add: single_fire_def)
  then show ?thesis by simp
next
  case False
  with assms show ?thesis by (simp add: single_fire_def cycles_def)
qed

lemma loaded_exits_once: "exits_once (loaded ls thr)"
  using loaded_not_exited [of ls thr] by (rule not_exited_exits_once)

subsection \<open>Slots are assigned by the broadcast\<close>

lemma emit_done_pending:
  "length (handler_callback_registry s) < registered_handlers_count s \<Longrightarrow>
   exit_calls (emit_done k hn s) = exit_calls s"
  by (induction k arbitrary: s) (simp_all add: checkHandlersDone_pending)

lemma done_callback_pending:
  "length (handler_callback_registry s) < registered_handlers_count s \<Longrightarrow>
   exit_calls (done_callback n s) = exit_calls s"
  by (simp add: done_callback_def emit_done_pending)

lemma funpow_done_callback_pending:
  "length (handler_callback_registry s) < registered_handlers_count s \<Longrightarrow>
   exit_calls ((done_callback n ^^ k) s) = exit_calls s"
  by (induction k) (simp_all add: done_callback_pending)

lemma call_handler_pending:
  "length (handler_callback_registry s) < registered_handlers_count s \<Longrightarrow>
   exit_calls (call_handler h n s) = exit_calls s"
  by (cases h)
     (simp_all add: call_handler_def funpow_done_callback_pending done_callback_pending
        defaultExitHandler_def setTimeout_def Let_def)

lemma tidy_exit_listener_pending:
  "Suc (length (handler_callback_registry s)) < registered_handlers_count s \<Longrightarrow>
   exit_calls (tidy_exit_listener src t s) = exit_calls s"
  by (cases t) (simp add: tidy_exit_listener_def Let_def log_def call_handler_pending)

lemma tidy_exit_listener_invocations:
  "invocations (tidy_exit_listener src t s) =
     invocations s @ [(task_handler t, Suc (length (handler_callback_registry s)))]"
  by (cases t) (simp add: tidy_exit_listener_def Let_def log_def)

lemma upt_shift: "[a ..< a + Suc n] = a # [Suc a ..< Suc a + n]"
  by (simp add: upt_conv_Cons del: upt_Suc)

lemma emit_tidyExit_slots:
  assumes "\<not> exited s"
    and "length (handler_callback_registry s) + length ts \<le> registered_handlers_count s"
  shows "invocations (emit_tidyExit src ts s) =
           invocations s @ zip (map task_handler ts)
             [Suc (length (handler_callback_registry s)) ..<
              Suc (length (handler_callback_registry s)) + length ts]
         \<and> length (handler_callback_registry (emit_tidyExit src ts s)) =
             length (handler_callback_registry s) + length ts"
  using assms
proof (induction ts arbitrary: s)
  case Nil
  then show ?case by simp
next
  case (Cons t ts)
  let ?n = "length (handler_callback_registry s)"
  let ?s' = "s\<lparr>tidyExit_listeners := remove1 t (tidyExit_listeners s)\<rparr>"
  let ?s'' = "tidy_exit_listener src t ?s'"
  have len: "length (handler_callback_registry ?s'') = Suc ?n" by simp
  have cnt: "registered_handlers_count ?s'' = registered_handlers_count s" by simp
  have inv: "invocations ?s'' = invocations s @ [(task_handler t, Suc ?n)]"
    by (simp add: tidy_exit_listener_invocations)
  from Cons.prems(1) have unfold: "emit_tidyExit src (t # ts) s = emit_tidyExit src ts ?s''"
    by simp
  show ?case
  proof (cases ts)
    case Nil
    with unfold len inv show ?thesis by (simp del: upt_Suc add: upt_conv_Cons)
  next
    case (Cons t' ts')
    with Cons.prems(2) have "Suc (length (handler_callback_registry ?s')) < registered_handlers_count ?s'"
      by simp
    then have "exit_calls ?s'' = exit_calls ?s'" by (rule tidy_exit_listener_pending)
    with Cons.prems(1) have alive: "\<not> exited ?s''" by (simp add: exited_def)
    from Cons.prems(2) have "length (handler_callback_registry ?s'') + length ts
        \<le> registered_handlers_count ?s''"
      by (simp add: len cnt)
    from Cons.IH [OF alive this]
    have ih: "invocations (emit_tidyExit src ts ?s'') =
        (invocations s @ [(task_handler t, Suc ?n)]) @
          zip (map task_handler ts) [Suc (Suc ?n) ..< Suc (Suc ?n) + length ts]
      \<and> length (handler_callback_registry (emit_tidyExit src ts ?s'')) = Suc ?n + length ts"
      by (simp only: len inv)
    have z: "zip (map task_handler (t # ts)) [Suc ?n ..< Suc ?n + length (t # ts)] =
        (task_handler t, Suc ?n) # zip (map task_handler ts) [Suc (Suc ?n) ..< Suc (Suc ?n) + length ts]"
      using upt_shift [of "Suc ?n" "length ts"] by (simp del: upt_Suc)
    from ih show ?thesis
      by (simp only: unfold z) simp
  qed
qed

lemma fold_registration_listeners:
  "\<not> exited s \<Longrightarrow>
   tidyExit_listeners (run (map registration regs) s) =
     tidyExit_listeners s @ map (\<lambda>r. Task (fst r) (fst (snd r))) regs
   \<and> handler_callback_registry (run (map registration regs) s) = handler_callback_registry s
   \<and> invocations (run (map registration regs) s) = invocations s
   \<and> exit_calls (run (map registration regs) s) = exit_calls s"
proof (induction regs arbitrary: s)
  case Nil
  then show ?case by (simp add: run_def)
next
  case (Cons r regs)
  obtain h desc timeout where r: "r = (h, desc, timeout)" by (cases r) auto
  let ?s1 = "addTidyExitHandler h desc timeout s"
  from Cons.prems have alive: "\<not> exited ?s1" by (simp add: exited_def)
  from Cons.prems r have "run (map registration (r # regs)) s = run (map registration regs) ?s1"
    by (simp add: run_def step_def)
  with Cons.IH [OF alive] r show ?case by simp
qed

lemma registrations_keep_listening:
  "\<not> exited s \<Longrightarrow> listening_to_exit s \<Longrightarrow>
   listening_to_exit (run (map registration regs) s)
   \<and> process_listeners (run (map registration regs) s) = process_listeners s"
proof (induction regs arbitrary: s)
  case Nil
  then show ?case by (simp add: run_def)
next
  case (Cons r regs)
  obtain h desc timeout where r: "r = (h, desc, timeout)" by (cases r) auto
  let ?s1 = "addTidyExitHandler h desc timeout s"
  from Cons.prems have alive: "\<not> exited ?s1" by (simp add: exited_def)
  note keep = addTidyExitHandler_listening [OF Cons.prems(2), of h desc timeout]
  from Cons.prems r have "run (map registration (r # regs)) s = run (map registration regs) ?s1"
    by (simp add: run_def step_def)
  with Cons.IH [OF alive] keep show ?case by simp
qed

lemma loaded_unbound:
  "process_listeners (loaded ls thr) = []" "\<not> listening_to_exit (loaded ls thr)"
  "handler_callback_registry (loaded ls thr) = []" "tidyExit_listeners (loaded ls thr) = []"
proof -
  show "process_listeners (loaded ls thr) = []"
    unfolding loaded_def by (rule init_unbinds) (rule fresh_tracked)
  show "\<not> listening_to_exit (loaded ls thr)"
    by (simp add: loaded_def init_result fresh_def)
  show "handler_callback_registry (loaded ls thr) = []" "tidyExit_listeners (loaded ls thr) = []"
    by (simp_all add: loaded_def init_result)
qed

lemma registered_listening:
  assumes "regs \<noteq> []"
  shows "listening_to_exit (run (map registration regs) (loaded ls thr))
       \<and> process_listeners (run (map registration regs) (loaded ls thr)) =
           [(Message, next_listener (loaded ls thr)), (SIGTERM, Suc (next_listener (loaded ls thr))),
            (SIGINT, Suc (Suc (next_listener (loaded ls thr)))),
            (SIGBREAK, Suc (Suc (Suc (next_listener (loaded ls thr)))))]"
proof -
  from assms obtain r regs' where regs: "regs = r # regs'" by (cases regs) auto
  obtain h desc timeout where r: "r = (h, desc, timeout)" by (cases r) auto
  let ?L = "loaded ls thr"
  let ?s1 = "addTidyExitHandler h desc timeout ?L"
  note b = registerExitListeners_binds [OF loaded_unbound(2), of ls thr]
  have l1: "listening_to_exit ?s1"
    and p1: "process_listeners ?s1 =
           [(Message, next_listener ?L), (SIGTERM, Suc (next_listener ?L)),
            (SIGINT, Suc (Suc (next_listener ?L))), (SIGBREAK, Suc (Suc (Suc (next_listener ?L))))]"
    using b by (simp_all add: addTidyExitHandler_def Let_def loaded_unbound)
  have alive: "\<not> exited ?s1" using loaded_not_exited [of ls thr] by (simp add: exited_def)
  have "run (map registration regs) ?L = run (map registration regs') ?s1"
    by (simp add: regs r run_def step_def)
  with registrations_keep_listening [OF alive l1, of regs'] p1 show ?thesis by simp
qed

lemma emittidyExitEvent_slots:
  assumes "\<not> exited s" and "handler_callback_registry s = []"
  shows "invocations (emittidyExitEvent src s) =
           invocations s @ zip (map task_handler (tidyExit_listeners s) @ [DefaultExitHandler])
                              [1 ..< length (tidyExit_listeners s) + 2]
       \<and> length (handler_callback_registry (emittidyExitEvent src s)) =
           length (tidyExit_listeners s) + 1"
proof -
  let ?s1 = "registerDefaultTimeoutHandler s"
  let ?s3 = "?s1\<lparr>registered_handlers_count := length (tidyExit_listeners ?s1),
                  broadcasts := broadcasts ?s1 @ [src]\<rparr>"
  from assms(1) have alive: "\<not> exited ?s3" by (simp add: exited_def)
  have fits: "length (handler_callback_registry ?s3) + length (tidyExit_listeners ?s3)
      \<le> registered_handlers_count ?s3"
    by (simp add: assms(2))
  have "emittidyExitEvent src s = emit_tidyExit src (tidyExit_listeners ?s3) ?s3"
    by (simp add: emittidyExitEvent_def Let_def)
  with emit_tidyExit_slots [OF alive fits, of src] show ?thesis
    by (simp add: assms(2))
qed

lemma init_invocations [simp]: "invocations (init s) = invocations s"
proof -
  have rm: "invocations (removeListener sg h s') = invocations s'" for sg h s'
    by (simp add: removeListener_def log_def)
  have fr: "invocations (fold (removeListener sg) hs s') = invocations s'" for sg hs s'
    by (induction hs arbitrary: s') (simp_all add: rm)
  have cs: "invocations (cleanup_signal sg s') = invocations s'" for sg s'
    by (simp add: cleanup_signal_def Let_def fr split: option.splits)
  have "invocations (cleanupExitListeners s') = invocations s'" for s'
    by (simp add: cleanupExitListeners_def SYSTEM_EXIT_SIGNALS_def cs split: option.splits)
  then show ?thesis
    by (simp add: init_def Let_def clearTimeout_def split: option.splits)
qed

lemma loaded_invocations [simp]: "invocations (loaded ls thr) = []"
  by (simp add: loaded_def fresh_def)

text \<open>The first trigger after the registrations: every task gets its slot in turn.\<close>

lemma first_broadcast_slots:
  assumes "regs \<noteq> []" and "sg \<noteq> Message \<or> loose_eq_shutdown m"
  shows "invocations (run (map registration regs @ [ProcessEmit sg m]) (loaded ls thr)) =
           zip (map fst regs @ [DefaultExitHandler]) [1 ..< length regs + 2]
       \<and> length (handler_callback_registry
           (run (map registration regs @ [ProcessEmit sg m]) (loaded ls thr))) = length regs + 1"
proof -
  let ?L = "loaded ls thr"
  let ?s0 = "run (map registration regs) ?L"
  note reg = fold_registration_listeners [OF loaded_not_exited, of regs ls thr]
  from reg have alive: "\<not> exited ?s0" using loaded_not_exited [of ls thr] by (simp add: exited_def)
  note lis = registered_listening [OF assms(1), of ls thr]
  obtain k where bound: "filter (\<lambda>p. fst p = sg) (process_listeners ?s0) = [(sg, k)]"
    using lis by (cases sg) simp_all
  let ?s1 = "?s0\<lparr>process_listeners := remove1 (sg, k) (process_listeners ?s0)\<rparr>"
  obtain src where fired: "exit_listener sg m ?s1 = emittidyExitEvent src ?s1"
    using assms(2) by (cases sg) (auto simp: exit_listener_def)
  from alive bound have "process_emit sg m ?s0 = exit_listener sg m ?s1"
    by (simp add: process_emit_def)
  with alive fired have run_eq: "run (map registration regs @ [ProcessEmit sg m]) ?L =
      emittidyExitEvent src ?s1"
    by (simp add: run_snoc step_def)
  from alive have alive1: "\<not> exited ?s1" by (simp add: exited_def)
  from reg have empty1: "handler_callback_registry ?s1 = []" by (simp add: loaded_unbound)
  have tasks: "map task_handler (tidyExit_listeners ?s1) = map fst regs"
    using reg by (simp add: loaded_unbound comp_def)
  have len: "length (tidyExit_listeners ?s1) = length regs"
    using reg by (simp add: loaded_unbound)
  have "invocations ?s1 = []" using reg by simp
  with emittidyExitEvent_slots [OF alive1 empty1, of src] show ?thesis
    by (simp only: run_eq tasks len) simp
qed

subsection \<open>Messages other than \<^verbatim>\<open>shutdown\<close>\<close>

text \<open>
  A payload that does not compare equal to \<^verbatim>\<open>'shutdown'\<close> starts no broadcast and
  changes no variable of the module; but the listener it reached was bound with
  \<^verbatim>\<open>process.once\<close> and is gone.
\<close>

lemma other_message_unbinds:
  "\<not> exited s \<Longrightarrow> \<not> loose_eq_shutdown m \<Longrightarrow>
   fire_listeners Message m hs s =
     s\<lparr>process_listeners := fold (\<lambda>h. remove1 (Message, h)) hs (process_listeners s)\<rparr>"
proof (induction hs arbitrary: s)
  case Nil
  then show ?case by simp
next
  case (Cons h hs)
  let ?s1 = "s\<lparr>process_listeners := remove1 (Message, h) (process_listeners s)\<rparr>"
  from Cons.prems have "\<not> exited ?s1" by (simp add: exited_def)
  from Cons.IH [OF this Cons.prems(2)] Cons.prems show ?case
    by (simp add: exit_listener_def)
qed

subsection \<open>The timer is armed by the first call of the safety-net task\<close>

lemma armed_by_default_cong:
  "invocations a = invocations b \<Longrightarrow> default_exit_timer a = default_exit_timer b \<Longrightarrow>
   armed_by_default n a = armed_by_default n b"
  by (simp add: armed_by_default_def)

lemma armed_by_default_update [simp]:
  "armed_by_default b (s\<lparr>tidyExit_listeners := a1\<rparr>) = armed_by_default b s"
  "armed_by_default b (s\<lparr>process_listeners := a2\<rparr>) = armed_by_default b s"
  "armed_by_default b (s\<lparr>registered_handlers_count := a3\<rparr>) = armed_by_default b s"
  "armed_by_default b (s\<lparr>broadcasts := a4\<rparr>) = armed_by_default b s"
  "armed_by_default b (s\<lparr>timers := a5\<rparr>) = armed_by_default b s"
  by (simp_all add: armed_by_default_def)

lemma call_handler_default_exit_timer:
  "default_exit_timer (call_handler h n s) =
     (if h = DefaultExitHandler \<and> default_exit_timer s = None then Some (next_timer s)
      else default_exit_timer s)"
  by (cases h) (simp_all add: call_handler_def defaultExitHandler_def setTimeout_def Let_def)

lemma tidy_exit_listener_default_exit_timer:
  "default_exit_timer (tidy_exit_listener src t s) =
     (if task_handler t = DefaultExitHandler \<and> default_exit_timer s = None then Some (next_timer s)
      else default_exit_timer s)"
  by (cases t) (simp add: tidy_exit_listener_def Let_def log_def call_handler_default_exit_timer)

lemma tidy_exit_listener_armed:
  assumes "armed_by_default b s"
  shows "armed_by_default b (tidy_exit_listener src t s)"
  using assms
  by (auto simp: armed_by_default_def tidy_exit_listener_invocations
        tidy_exit_listener_default_exit_timer image_Un)

lemma emit_tidyExit_armed:
  "armed_by_default b s \<Longrightarrow> armed_by_default b (emit_tidyExit src ts s)"
  by (induction ts arbitrary: s) (simp_all add: tidy_exit_listener_armed)

lemma emittidyExitEvent_armed:
  assumes "armed_by_default b s"
  shows "armed_by_default b (emittidyExitEvent src s)"
proof -
  have "armed_by_default b (registerDefaultTimeoutHandler s) = armed_by_default b s"
    by (rule armed_by_default_cong) simp_all
  with assms show ?thesis
    by (simp add: emittidyExitEvent_def Let_def emit_tidyExit_armed)
qed

lemma exit_listener_armed:
  "armed_by_default b s \<Longrightarrow> armed_by_default b (exit_listener sg m s)"
  by (cases sg) (simp_all add: exit_listener_def emittidyExitEvent_armed)

lemma fire_listeners_armed:
  "armed_by_default b s \<Longrightarrow> armed_by_default b (fire_listeners sg m hs s)"
  by (induction hs arbitrary: s) (simp_all add: exit_listener_armed)

lemma step_armed:
  assumes "armed_by_default b s" and "e \<noteq> CallReset"
  shows "armed_by_default b (step e s)"
proof (cases "exited s")
  case True
  with assms show ?thesis by (simp add: step_def)
next
  case False
  have same: "armed_by_default b s'"
    if "invocations s' = invocations s" "default_exit_timer s' = default_exit_timer s" for s'
    using assms(1) armed_by_default_cong [OF that] by simp
  have expired: "armed_by_default b (timer_expires t s)" for t
    by (rule same) simp_all
  from False assms show ?thesis
    by (cases e)
       (simp_all add: step_def setMaxTimeout_def setLogger_def process_emit_def fire_listeners_armed
          same expired)
qed

lemma run_armed:
  "armed_by_default b s \<Longrightarrow> CallReset \<notin> set es \<Longrightarrow> armed_by_default b (run es s)"
  by (induction es arbitrary: s) (auto simp: run_def step_armed)

lemma init_armed: "armed_by_default (length (invocations (init s))) (init s)"
  by (simp add: armed_by_default_def init_timers)

subsection \<open>The safety-net task completes at once\<close>

lemma checkHandlersDone_counts:
  "i < length (handler_callback_registry s) \<Longrightarrow>
   handler_callback_registry s ! i \<le> handler_callback_registry (snd (checkHandlersDone hn s)) ! i"
proof -
  assume i: "i < length (handler_callback_registry s)"
  have upd: "handler_callback_registry s ! i
      \<le> (handler_callback_registry s)[j := Suc (handler_callback_registry s ! j)] ! i" for j
    using i by (cases "i = j") simp_all
  show ?thesis
    by (cases hn) (simp_all add: checkHandlersDone_def Let_def log_def process_exit_def upd)
qed

lemma checkHandlersDone_increments:
  "0 < n \<Longrightarrow> n \<le> length (handler_callback_registry s) \<Longrightarrow>
   handler_callback_registry (snd (checkHandlersDone (Num (int n)) s)) ! (n - 1) =
     Suc (handler_callback_registry s ! (n - 1))"
  by (auto simp: checkHandlersDone_def Let_def js_le_def process_exit_def nat_diff_distrib')

lemma emit_done_counts:
  "i < length (handler_callback_registry s) \<Longrightarrow>
   handler_callback_registry s ! i \<le> handler_callback_registry (emit_done k hn s) ! i"
proof (induction k arbitrary: s)
  case 0
  then show ?case by simp
next
  case (Suc k)
  show ?case
  proof (cases "exited s")
    case True
    then show ?thesis by simp
  next
    case False
    let ?s1 = "snd (checkHandlersDone hn s)"
    from Suc.prems have "i < length (handler_callback_registry ?s1)" by simp
    from Suc.IH [OF this] checkHandlersDone_counts [OF Suc.prems, of hn] False
    show ?thesis by simp
  qed
qed

lemma done_callback_completes:
  assumes "\<not> exited s" "0 < done_listeners s" "0 < n" "n \<le> length (handler_callback_registry s)"
  shows "1 \<le> handler_callback_registry (done_callback n s) ! (n - 1)"
proof -
  from assms(2) obtain k where k: "done_listeners s = Suc k" by (cases "done_listeners s") auto
  let ?s1 = "snd (checkHandlersDone (Num (int n)) s)"
  from assms(3,4) have i: "n - 1 < length (handler_callback_registry ?s1)" by simp
  from checkHandlersDone_increments [OF assms(3,4)]
  have "1 \<le> handler_callback_registry ?s1 ! (n - 1)" by simp
  also have "\<dots> \<le> handler_callback_registry (emit_done k (Num (int n)) ?s1) ! (n - 1)"
    using i by (rule emit_done_counts)
  finally show ?thesis using assms(1) k by (simp add: done_callback_def)
qed

lemma default_task_completes:
  assumes "\<not> exited s" "0 < done_listeners s"
  shows "1 \<le> handler_callback_registry (tidy_exit_listener src (Task DefaultExitHandler desc) s)
              ! length (handler_callback_registry s)"
proof -
  let ?n = "Suc (length (handler_callback_registry s))"
  let ?s3 = "s\<lparr>handler_callback_registry := handler_callback_registry s @ [0],
               log_calls := log_calls s @ [GracefulExitTriggered src desc],
               invocations := invocations s @ [(DefaultExitHandler, ?n)]\<rparr>"
  let ?s4 = "if default_exit_timer ?s3 = None
             then ?s3\<lparr>timers := timers ?s3 @ [(next_timer ?s3, getTimeout ?s3)],
                      next_timer := Suc (next_timer ?s3),
                      default_exit_timer := Some (next_timer ?s3)\<rparr>
             else ?s3"
  have eq: "tidy_exit_listener src (Task DefaultExitHandler desc) s = done_callback ?n ?s4"
    by (simp add: tidy_exit_listener_def Let_def log_def call_handler_def defaultExitHandler_def
          setTimeout_def)
  from assms have "\<not> exited ?s4" "0 < done_listeners ?s4" "0 < ?n"
    "?n \<le> length (handler_callback_registry ?s4)"
    by (simp_all add: exited_def)
  from done_callback_completes [OF this] show ?thesis by (simp add: eq)
qed

subsection \<open>The armed timer runs the timeout callback\<close>

lemma isFullyDrained_timers [simp]: "isFullyDrained (s\<lparr>timers := ts\<rparr>) = isFullyDrained s"
  by (simp add: isFullyDrained_def)

lemma timer_expires_not_drained:
  "t \<in> fst ` set (timers s) \<Longrightarrow> \<not> isFullyDrained s \<Longrightarrow>
   exit_calls (timer_expires t s) = exit_calls s @ [1]
   \<and> log_calls (timer_expires t s) = log_calls s @ [TimedOutWaiting]"
  by (simp add: timer_expires_def default_exit_timeout_not_drained process_exit_def log_def)

lemma timer_expires_drained:
  "t \<in> fst ` set (timers s) \<Longrightarrow> isFullyDrained s \<Longrightarrow>
   exit_calls (timer_expires t s) = exit_calls s @ [0]"
  by (simp add: timer_expires_def default_exit_timeout_drained process_exit_def)

lemma timer_expires_unarmed:
  "t \<notin> fst ` set (timers s) \<Longrightarrow> timer_expires t s = s"
  by (simp add: timer_expires_def)

lemma defaultExitHandler_arms:
  "default_exit_timer s = None \<Longrightarrow>
   timers (defaultExitHandler n s) = timers s @ [(next_timer s, getTimeout s)]
   \<and> default_exit_timer (defaultExitHandler n s) = Some (next_timer s)"
  by (simp add: defaultExitHandler_def setTimeout_def Let_def)

text \<open>The timer that the safety-net task has armed, expiring on a process that is not drained.\<close>

lemma armed_timer_forces_exit:
  assumes "default_exit_timer s = None"
    and "\<not> exited (defaultExitHandler n s)" and "\<not> isFullyDrained (defaultExitHandler n s)"
  shows "exit_calls (step (TimerExpires (next_timer s)) (defaultExitHandler n s)) = [1]"
proof -
  let ?s' = "defaultExitHandler n s"
  from defaultExitHandler_arms [OF assms(1), of n]
  have "next_timer s \<in> fst ` set (timers ?s')" by simp
  from timer_expires_not_drained [OF this assms(3)] assms(2) show ?thesis
    by (simp add: step_def exited_def)
qed

subsection \<open>A broadcast cycle, step by step\<close>

lemma init_freshly_reset:
  assumes "listeners_tracked s" and "\<not> exited s"
  shows "freshly_reset (init s)"
proof -
  from assms(1) have "exit_signal_handlers s = None \<longrightarrow> \<not> listening_to_exit s"
    by (simp add: listeners_tracked_def)
  then have "\<not> listening_to_exit (init s)" by (simp add: init_result)
  with init_unbinds [OF assms(1)] assms(2) show ?thesis
    by (simp add: freshly_reset_def init_result exited_def)
qed

lemma loaded_freshly_reset: "freshly_reset (loaded ls thr)"
  by (simp add: freshly_reset_def loaded_unbound)

lemma reachable_reset:
  "\<not> exited (run pre (loaded ls thr)) \<Longrightarrow> freshly_reset (init (run pre (loaded ls thr)))"
  by (rule init_freshly_reset) (simp_all add: run_tracked loaded_tracked)

lemma registrations_bind:
  assumes "freshly_reset s" and "regs \<noteq> []"
  shows "listening_to_exit (run (map registration regs) s)
       \<and> process_listeners (run (map registration regs) s) =
           [(Message, next_listener s), (SIGTERM, Suc (next_listener s)),
            (SIGINT, Suc (Suc (next_listener s))), (SIGBREAK, Suc (Suc (Suc (next_listener s))))]"
proof -
  from assms(2) obtain r regs' where regs: "regs = r # regs'" by (cases regs) auto
  obtain h desc timeout where r: "r = (h, desc, timeout)" by (cases r) auto
  from assms(1) have fr: "\<not> exited s" "process_listeners s = []" "\<not> listening_to_exit s"
    by (simp_all add: freshly_reset_def)
  let ?s1 = "addTidyExitHandler h desc timeout s"
  note b = registerExitListeners_binds [OF fr(3)]
  have l1: "listening_to_exit ?s1"
    and p1: "process_listeners ?s1 =
           [(Message, next_listener s), (SIGTERM, Suc (next_listener s)),
            (SIGINT, Suc (Suc (next_listener s))), (SIGBREAK, Suc (Suc (Suc (next_listener s))))]"
    using b by (simp_all add: addTidyExitHandler_def Let_def fr)
  have alive: "\<not> exited ?s1" using fr(1) by (simp add: exited_def)
  have "run (map registration regs) s = run (map registration regs') ?s1"
    using fr(1) by (simp add: regs r run_def step_def)
  with registrations_keep_listening [OF alive l1, of regs'] p1 show ?thesis by simp
qed

lemma registrations_after_reset:
  assumes "freshly_reset s"
  shows "tidyExit_listeners (run (map registration regs) s) = map (\<lambda>r. Task (fst r) (fst (snd r))) regs"
    and "handler_callback_registry (run (map registration regs) s) = []"
    and "invocations (run (map registration regs) s) = invocations s"
    and "\<not> exited (run (map registration regs) s)"
proof -
  from assms have fr: "\<not> exited s" "handler_callback_registry s = []" "tidyExit_listeners s = []"
    by (simp_all add: freshly_reset_def)
  note reg = fold_registration_listeners [OF fr(1), of regs]
  from reg fr show "tidyExit_listeners (run (map registration regs) s) =
      map (\<lambda>r. Task (fst r) (fst (snd r))) regs"
    and "handler_callback_registry (run (map registration regs) s) = []"
    and "invocations (run (map registration regs) s) = invocations s"
    and "\<not> exited (run (map registration regs) s)"
    by (simp_all add: exited_def)
qed

text \<open>A qualifying trigger whose listener is the only one bound for its signal.\<close>

lemma trigger_fires:
  assumes "\<not> exited s" and "filter (\<lambda>p. fst p = sg) (process_listeners s) = [(sg, k)]"
    and "sg \<noteq> Message \<or> loose_eq_shutdown m"
  shows "step (ProcessEmit sg m) s =
           emittidyExitEvent (source_label sg m)
             (s\<lparr>process_listeners := remove1 (sg, k) (process_listeners s)\<rparr>)"
proof -
  let ?s1 = "s\<lparr>process_listeners := remove1 (sg, k) (process_listeners s)\<rparr>"
  have "exit_listener sg m ?s1 = emittidyExitEvent (source_label sg m) ?s1"
    using assms(3) by (cases sg) (auto simp: exit_listener_def source_label_def)
  with assms(1,2) show ?thesis
    by (simp add: step_def process_emit_def)
qed

lemma reset_broadcast_slots:
  assumes "freshly_reset s" and "regs \<noteq> []" and "sg \<noteq> Message \<or> loose_eq_shutdown m"
  shows "invocations (run (map registration regs @ [ProcessEmit sg m]) s) =
           invocations s @ zip (map fst regs @ [DefaultExitHandler]) [1 ..< length regs + 2]
       \<and> length (handler_callback_registry
           (run (map registration regs @ [ProcessEmit sg m]) s)) = length regs + 1"
proof -
  let ?s0 = "run (map registration regs) s"
  note reg = registrations_after_reset [OF assms(1), of regs]
  note lis = registrations_bind [OF assms(1,2)]
  obtain k where bound: "filter (\<lambda>p. fst p = sg) (process_listeners ?s0) = [(sg, k)]"
    using lis by (cases sg) simp_all
  let ?s1 = "?s0\<lparr>process_listeners := remove1 (sg, k) (process_listeners ?s0)\<rparr>"
  from trigger_fires [OF reg(4) bound assms(3)]
  have run_eq: "run (map registration regs @ [ProcessEmit sg m]) s =
      emittidyExitEvent (source_label sg m) ?s1"
    by (simp add: run_snoc)
  from reg(4) have alive1: "\<not> exited ?s1" by (simp add: exited_def)
  from reg have empty1: "handler_callback_registry ?s1 = []" by simp
  have tasks: "map task_handler (tidyExit_listeners ?s1) = map fst regs"
    using reg by (simp add: comp_def)
  have len: "length (tidyExit_listeners ?s1) = length regs"
    using reg by simp
  have "invocations ?s1 = invocations s" using reg by simp
  with emittidyExitEvent_slots [OF alive1 empty1, of "source_label sg m"] show ?thesis
    by (simp only: run_eq tasks len)
qed

subsection \<open>A pending task keeps the process running\<close>

lemma slot_pending_cong:
  "exit_calls s' = exit_calls s \<Longrightarrow> handler_callback_registry s' = handler_callback_registry s \<Longrightarrow>
   slot_pending i s' = slot_pending i s"
  by (simp add: slot_pending_def exited_def)

lemma slot_pending_alive: "slot_pending i s \<Longrightarrow> \<not> exited s"
  by (simp add: slot_pending_def)

lemma checkHandlersDone_held:
  assumes "slot_pending i s" and "n \<noteq> Suc i"
  shows "slot_pending i (snd (checkHandlersDone (Num (int n)) s))
       \<and> length (handler_callback_registry (snd (checkHandlersDone (Num (int n)) s))) =
           length (handler_callback_registry s)"
proof -
  from assms(1) have alive: "exit_calls s = []" and i: "i < length (handler_callback_registry s)"
    and z: "handler_callback_registry s ! i = 0"
    by (simp_all add: slot_pending_def exited_def)
  have open_slot: "\<not> list_all ((<) 0) xs" if "i < length xs" "xs ! i = (0::nat)" for xs
    using that by (auto simp: list_all_length)
  show ?thesis
  proof (cases n)
    case 0
    with alive i z show ?thesis
      by (simp add: checkHandlersDone_def Let_def slot_pending_def exited_def open_slot)
  next
    case (Suc m)
    with assms(2) have ne: "m \<noteq> i" by simp
    have m: "nat (int (Suc m) - 1) = m" by simp
    from alive i z ne show ?thesis
      unfolding Suc
      by (simp add: checkHandlersDone_def Let_def slot_pending_def exited_def log_def
          open_slot nth_list_update_neq m del: of_nat_Suc)
  qed
qed

lemma emit_done_held:
  "slot_pending i s \<Longrightarrow> n \<noteq> Suc i \<Longrightarrow>
   slot_pending i (emit_done k (Num (int n)) s)
   \<and> length (handler_callback_registry (emit_done k (Num (int n)) s)) =
       length (handler_callback_registry s)"
proof (induction k arbitrary: s)
  case 0
  then show ?case by simp
next
  case (Suc k)
  note h = checkHandlersDone_held [OF Suc.prems]
  from Suc.IH [of "snd (checkHandlersDone (Num (int n)) s)"] h Suc.prems show ?case
    by (simp add: slot_pending_alive)
qed

lemma done_callback_held:
  "slot_pending i s \<Longrightarrow> n \<noteq> Suc i \<Longrightarrow>
   slot_pending i (done_callback n s)
   \<and> length (handler_callback_registry (done_callback n s)) =
       length (handler_callback_registry s)"
  by (simp add: done_callback_def emit_done_held slot_pending_alive)

lemma funpow_done_callback_held:
  "slot_pending i s \<Longrightarrow> n \<noteq> Suc i \<Longrightarrow>
   slot_pending i ((done_callback n ^^ k) s)
   \<and> length (handler_callback_registry ((done_callback n ^^ k) s)) =
       length (handler_callback_registry s)"
  by (induction k) (simp_all add: done_callback_held)

lemma call_handler_held:
  assumes "slot_pending i s" and "n \<noteq> Suc i"
  shows "slot_pending i (call_handler h n s)
       \<and> length (handler_callback_registry (call_handler h n s)) =
           length (handler_callback_registry s)"
proof (cases h)
  case (AppHandler k)
  with funpow_done_callback_held [OF assms, of k] show ?thesis
    by (simp add: call_handler_def)
next
  case DefaultExitHandler
  let ?s1 = "if default_exit_timer s = None
             then (let timeout = getTimeout s; (t, s') = setTimeout timeout s
                   in s'\<lparr>default_exit_timer := Some t\<rparr>)
             else s"
  have "slot_pending i ?s1 = slot_pending i s"
    by (rule slot_pending_cong) (simp_all add: setTimeout_def Let_def)
  with assms(1) have p: "slot_pending i ?s1" by simp
  have len: "length (handler_callback_registry ?s1) = length (handler_callback_registry s)"
    by (simp add: setTimeout_def Let_def)
  from done_callback_held [OF p assms(2)] len DefaultExitHandler show ?thesis
    by (simp add: call_handler_def defaultExitHandler_def)
next
  case (ExpressAppHandler a)
  let ?s1 = "s\<lparr>apps := (apps s)(a := (apps s a)\<lparr>tidy_exit_state := Some True\<rparr>)\<rparr>"
  have "slot_pending i ?s1 = slot_pending i s"
    by (rule slot_pending_cong) simp_all
  with assms(1) have p: "slot_pending i ?s1" by simp
  from done_callback_held [OF p assms(2)] ExpressAppHandler show ?thesis
    by (simp add: call_handler_def)
next
  case (HttpServerHandler v)
  let ?s1 = "call_handler h n s"
  have "slot_pending i ?s1 = slot_pending i s"
    by (rule slot_pending_cong) (simp_all add: call_handler_def HttpServerHandler)
  with assms(1) show ?thesis by (simp add: call_handler_def HttpServerHandler)
qed

lemma tidy_exit_listener_held:
  assumes "slot_pending i s"
  shows "slot_pending i (tidy_exit_listener src t s)"
proof -
  obtain h desc where t: "t = Task h desc" by (cases t) auto
  let ?s3 = "log (GracefulExitTriggered src desc)
              (s\<lparr>handler_callback_registry := handler_callback_registry s @ [0]\<rparr>)
             \<lparr>invocations := invocations s @ [(h, Suc (length (handler_callback_registry s)))]\<rparr>"
  from assms have p: "slot_pending i ?s3"
    by (simp add: slot_pending_def exited_def log_def nth_append)
  from assms have ne: "Suc (length (handler_callback_registry s)) \<noteq> Suc i"
    by (simp add: slot_pending_def)
  from call_handler_held [OF p ne, of h] show ?thesis
    by (simp add: tidy_exit_listener_def t Let_def log_def)
qed

lemma tidy_exit_listener_opens:
  assumes "\<not> exited s" and "completes_later (task_handler t)"
  shows "slot_pending (length (handler_callback_registry s)) (tidy_exit_listener src t s)"
proof -
  obtain h desc where t: "t = Task h desc" by (cases t) auto
  from assms t show ?thesis
    by (cases h)
       (simp_all add: tidy_exit_listener_def Let_def log_def call_handler_def
          slot_pending_def exited_def)
qed

lemma emit_tidyExit_exited: "exited s \<Longrightarrow> emit_tidyExit src ts s = s"
  by (cases ts) simp_all

lemma emit_tidyExit_held:
  "slot_pending i s \<Longrightarrow> slot_pending i (emit_tidyExit src ts s)"
proof (induction ts arbitrary: s)
  case Nil
  then show ?case by simp
next
  case (Cons t ts)
  let ?s' = "s\<lparr>tidyExit_listeners := remove1 t (tidyExit_listeners s)\<rparr>"
  have "slot_pending i ?s' = slot_pending i s" by (rule slot_pending_cong) simp_all
  with Cons.prems have "slot_pending i ?s'" by simp
  then have "slot_pending i (tidy_exit_listener src t ?s')" by (rule tidy_exit_listener_held)
  from Cons.IH [OF this] Cons.prems show ?case by (simp add: slot_pending_alive)
qed

lemma emit_tidyExit_opens:
  assumes "\<not> exited s"
    and "length (handler_callback_registry s) + length ts \<le> registered_handlers_count s"
    and "\<exists>t \<in> set ts. completes_later (task_handler t)"
  shows "\<exists>i. slot_pending i (emit_tidyExit src ts s)"
  using assms
proof (induction ts arbitrary: s)
  case Nil
  then show ?case by simp
next
  case (Cons t ts)
  let ?s' = "s\<lparr>tidyExit_listeners := remove1 t (tidyExit_listeners s)\<rparr>"
  let ?s'' = "tidy_exit_listener src t ?s'"
  from Cons.prems(1) have unfold: "emit_tidyExit src (t # ts) s = emit_tidyExit src ts ?s''"
    by simp
  from Cons.prems(1) have alive': "\<not> exited ?s'" by (simp add: exited_def)
  show ?case
  proof (cases "completes_later (task_handler t)")
    case True
    from tidy_exit_listener_opens [OF alive' True, of src]
    have "slot_pending (length (handler_callback_registry s)) ?s''" by simp
    then have "slot_pending (length (handler_callback_registry s)) (emit_tidyExit src ts ?s'')"
      by (rule emit_tidyExit_held)
    then show ?thesis by (auto simp only: unfold)
  next
    case False
    with Cons.prems(3) have later: "\<exists>t \<in> set ts. completes_later (task_handler t)" by auto
    then have "ts \<noteq> []" by auto
    with Cons.prems(2) have "Suc (length (handler_callback_registry ?s')) < registered_handlers_count ?s'"
      by (cases ts) simp_all
    then have "exit_calls ?s'' = exit_calls ?s'" by (rule tidy_exit_listener_pending)
    with Cons.prems(1) have alive: "\<not> exited ?s''" by (simp add: exited_def)
    from Cons.prems(2) have fits: "length (handler_callback_registry ?s'') + length ts
        \<le> registered_handlers_count ?s''"
      by simp
    from Cons.IH [OF alive fits later] show ?thesis by (simp only: unfold)
  qed
qed

text \<open>What a broadcast that does not end the process has done.\<close>

lemma emit_tidyExit_alive:
  assumes "\<not> exited (emit_tidyExit src ts s)" and "tidyExit_listeners s = ts @ rest"
  shows "invocations (emit_tidyExit src ts s) =
           invocations s @ zip (map task_handler ts)
             [Suc (length (handler_callback_registry s)) ..<
              Suc (length (handler_callback_registry s)) + length ts]
       \<and> length (handler_callback_registry (emit_tidyExit src ts s)) =
           length (handler_callback_registry s) + length ts
       \<and> tidyExit_listeners (emit_tidyExit src ts s) = rest"
  using assms
proof (induction ts arbitrary: s)
  case Nil
  then show ?case by simp
next
  case (Cons t ts)
  let ?n = "length (handler_callback_registry s)"
  let ?s' = "s\<lparr>tidyExit_listeners := remove1 t (tidyExit_listeners s)\<rparr>"
  let ?s'' = "tidy_exit_listener src t ?s'"
  from Cons.prems(1) have alive: "\<not> exited s"
    using emit_tidyExit_exited [of s src "t # ts"] by auto
  then have unfold: "emit_tidyExit src (t # ts) s = emit_tidyExit src ts ?s''"
    by simp
  have len: "length (handler_callback_registry ?s'') = Suc ?n" by simp
  have inv: "invocations ?s'' = invocations s @ [(task_handler t, Suc ?n)]"
    by (simp add: tidy_exit_listener_invocations)
  have rest: "tidyExit_listeners ?s'' = ts @ rest" using Cons.prems(2) by simp
  from Cons.prems(1) alive have alive'': "\<not> exited (emit_tidyExit src ts ?s'')" by simp
  from Cons.IH [OF alive'' rest]
  have ih: "invocations (emit_tidyExit src ts ?s'') =
      (invocations s @ [(task_handler t, Suc ?n)]) @
        zip (map task_handler ts) [Suc (Suc ?n) ..< Suc (Suc ?n) + length ts]
    \<and> length (handler_callback_registry (emit_tidyExit src ts ?s'')) = Suc ?n + length ts
    \<and> tidyExit_listeners (emit_tidyExit src ts ?s'') = rest"
    by (simp only: len inv)
  have z: "zip (map task_handler (t # ts)) [Suc ?n ..< Suc ?n + length (t # ts)] =
      (task_handler t, Suc ?n) # zip (map task_handler ts) [Suc (Suc ?n) ..< Suc (Suc ?n) + length ts]"
    using upt_shift [of "Suc ?n" "length ts"] by (simp del: upt_Suc)
  from ih show ?case
    by (simp only: unfold z) simp
qed

subsection \<open>Two cycles in one execution\<close>

lemma emittidyExitEvent_held:
  assumes "slot_pending i s"
  shows "slot_pending i (emittidyExitEvent src s)"
proof -
  let ?s1 = "registerDefaultTimeoutHandler s"
  let ?s3 = "?s1\<lparr>registered_handlers_count := length (tidyExit_listeners ?s1),
                  broadcasts := broadcasts ?s1 @ [src]\<rparr>"
  have "slot_pending i ?s3 = slot_pending i s" by (rule slot_pending_cong) simp_all
  with assms have "slot_pending i ?s3" by simp
  then have "slot_pending i (emit_tidyExit src (tidyExit_listeners ?s3) ?s3)"
    by (rule emit_tidyExit_held)
  then show ?thesis by (simp add: emittidyExitEvent_def Let_def)
qed

lemma emittidyExitEvent_opens:
  assumes "\<not> exited s" and "handler_callback_registry s = []"
    and "\<exists>t \<in> set (tidyExit_listeners s). completes_later (task_handler t)"
  shows "\<exists>i. slot_pending i (emittidyExitEvent src s)"
proof -
  let ?s1 = "registerDefaultTimeoutHandler s"
  let ?s3 = "?s1\<lparr>registered_handlers_count := length (tidyExit_listeners ?s1),
                  broadcasts := broadcasts ?s1 @ [src]\<rparr>"
  from assms(1) have alive: "\<not> exited ?s3" by (simp add: exited_def)
  have fits: "length (handler_callback_registry ?s3) + length (tidyExit_listeners ?s3)
      \<le> registered_handlers_count ?s3"
    by (simp add: assms(2))
  from assms(3) have later: "\<exists>t \<in> set (tidyExit_listeners ?s3). completes_later (task_handler t)"
    by auto
  have "emittidyExitEvent src s = emit_tidyExit src (tidyExit_listeners ?s3) ?s3"
    by (simp add: emittidyExitEvent_def Let_def)
  with emit_tidyExit_opens [OF alive fits later, of src] show ?thesis by simp
qed

lemma emittidyExitEvent_alive:
  assumes "\<not> exited (emittidyExitEvent src s)"
  shows "invocations (emittidyExitEvent src s) =
           invocations s @ zip (map task_handler (tidyExit_listeners s) @ [DefaultExitHandler])
             [Suc (length (handler_callback_registry s)) ..<
              length (handler_callback_registry s) + length (tidyExit_listeners s) + 2]"
    and "length (handler_callback_registry (emittidyExitEvent src s)) =
           length (handler_callback_registry s) + length (tidyExit_listeners s) + 1"
    and "tidyExit_listeners (emittidyExitEvent src s) = []"
proof -
  let ?s1 = "registerDefaultTimeoutHandler s"
  let ?s3 = "?s1\<lparr>registered_handlers_count := length (tidyExit_listeners ?s1),
                  broadcasts := broadcasts ?s1 @ [src]\<rparr>"
  have eq: "emittidyExitEvent src s = emit_tidyExit src (tidyExit_listeners ?s3) ?s3"
    by (simp add: emittidyExitEvent_def Let_def)
  from assms have alive: "\<not> exited (emit_tidyExit src (tidyExit_listeners ?s3) ?s3)"
    by (simp add: eq)
  have whole: "tidyExit_listeners ?s3 = tidyExit_listeners ?s3 @ []" by simp
  note a = emit_tidyExit_alive [OF alive whole]
  from a show "invocations (emittidyExitEvent src s) =
           invocations s @ zip (map task_handler (tidyExit_listeners s) @ [DefaultExitHandler])
             [Suc (length (handler_callback_registry s)) ..<
              length (handler_callback_registry s) + length (tidyExit_listeners s) + 2]"
    by (simp only: eq [symmetric]) simp
  from a show "length (handler_callback_registry (emittidyExitEvent src s)) =
           length (handler_callback_registry s) + length (tidyExit_listeners s) + 1"
    by (simp only: eq [symmetric]) simp
  from a show "tidyExit_listeners (emittidyExitEvent src s) = []"
    by (simp only: eq [symmetric])
qed

lemma registrations_broadcasts:
  "broadcasts (run (map registration regs) s) = broadcasts s"
proof (induction regs arbitrary: s)
  case Nil
  then show ?case by (simp add: run_def)
next
  case (Cons r regs)
  obtain h desc timeout where r: "r = (h, desc, timeout)" by (cases r) auto
  show ?case
  proof (cases "exited s")
    case True
    then show ?thesis by (simp add: run_exited)
  next
    case False
    with r have "run (map registration (r # regs)) s =
        run (map registration regs) (addTidyExitHandler h desc timeout s)"
      by (simp add: run_def step_def)
    with Cons.IH [of "addTidyExitHandler h desc timeout s"] show ?thesis by simp
  qed
qed

text \<open>One cycle, seen from the process: the trigger's listener is unbound and broadcasts.\<close>

lemma cycle_completed:
  assumes alive: "\<not> exited s" and l: "listening_to_exit s"
    and bound: "filter (\<lambda>p. fst p = sg) (process_listeners s) = [(sg, k)]"
    and q: "sg \<noteq> Message \<or> loose_eq_shutdown m"
    and after: "\<not> exited (step (ProcessEmit sg m) s)"
  shows "invocations (step (ProcessEmit sg m) s) =
           invocations s @ zip (map task_handler (tidyExit_listeners s) @ [DefaultExitHandler])
             [Suc (length (handler_callback_registry s)) ..<
              length (handler_callback_registry s) + length (tidyExit_listeners s) + 2]"
    and "length (handler_callback_registry (step (ProcessEmit sg m) s)) =
           length (handler_callback_registry s) + length (tidyExit_listeners s) + 1"
    and "tidyExit_listeners (step (ProcessEmit sg m) s) = []"
    and "broadcasts (step (ProcessEmit sg m) s) = broadcasts s @ [source_label sg m]"
    and "process_listeners (step (ProcessEmit sg m) s) = remove1 (sg, k) (process_listeners s)"
    and "listening_to_exit (step (ProcessEmit sg m) s)"
proof -
  let ?s1 = "s\<lparr>process_listeners := remove1 (sg, k) (process_listeners s)\<rparr>"
  note fires = trigger_fires [OF alive bound q]
  from after have after': "\<not> exited (emittidyExitEvent (source_label sg m) ?s1)"
    by (simp add: fires)
  note a = emittidyExitEvent_alive [OF after']
  from l have l1: "listening_to_exit ?s1" by simp
  note keep = emittidyExitEvent_listening [OF l1, of "source_label sg m"]
  from a(1) show "invocations (step (ProcessEmit sg m) s) =
           invocations s @ zip (map task_handler (tidyExit_listeners s) @ [DefaultExitHandler])
             [Suc (length (handler_callback_registry s)) ..<
              length (handler_callback_registry s) + length (tidyExit_listeners s) + 2]"
    by (simp add: fires)
  from a(2) show "length (handler_callback_registry (step (ProcessEmit sg m) s)) =
           length (handler_callback_registry s) + length (tidyExit_listeners s) + 1"
    by (simp add: fires)
  from a(3) show "tidyExit_listeners (step (ProcessEmit sg m) s) = []"
    by (simp add: fires)
  show "broadcasts (step (ProcessEmit sg m) s) = broadcasts s @ [source_label sg m]"
    by (simp add: fires)
  from keep show "process_listeners (step (ProcessEmit sg m) s) = remove1 (sg, k) (process_listeners s)"
    by (simp add: fires)
  from keep show "listening_to_exit (step (ProcessEmit sg m) s)"
    by (simp add: fires)
qed

lemma trigger_unbound:
  assumes "filter (\<lambda>p. fst p = sg) (process_listeners s) = []"
  shows "step (ProcessEmit sg m) s = s"
  using assms by (simp add: step_def process_emit_def)

lemma other_listener_bound:
  assumes "sg2 \<noteq> sg1"
  shows "\<exists>k. filter (\<lambda>p. fst p = sg2)
           (remove1 (sg1, k1) [(Message, a), (SIGTERM, b), (SIGINT, c), (SIGBREAK, d)]) = [(sg2, k)]"
  using assms by (cases sg1; cases sg2) auto

lemma own_listener_unbound:
  assumes "filter (\<lambda>p. fst p = sg) [(Message, a), (SIGTERM, b), (SIGINT, c), (SIGBREAK, d)] = [(sg, k)]"
  shows "filter (\<lambda>p. fst p = sg)
           (remove1 (sg, k) [(Message, a), (SIGTERM, b), (SIGINT, c), (SIGBREAK, d)]) = []"
  using assms by (cases sg) auto

lemma registered_tasks:
  "map task_handler (map (\<lambda>r. Task (fst r) (fst (snd r))) regs) = map fst regs"
  by (simp add: comp_def)

lemma two_distinct_triggers:
  assumes fr: "freshly_reset s0"
    and later: "\<exists>r \<in> set regs. completes_later (fst r)"
    and ne: "sg1 \<noteq> sg2"
    and q1: "sg1 \<noteq> Message \<or> loose_eq_shutdown m1"
    and q2: "sg2 \<noteq> Message \<or> loose_eq_shutdown m2"
  shows "broadcasts (run (map registration regs @ ProcessEmit sg1 m1 #
                          map registration regs2 @ [ProcessEmit sg2 m2]) s0) =
           broadcasts s0 @ [source_label sg1 m1, source_label sg2 m2]"
    and "invocations (run (map registration regs @ ProcessEmit sg1 m1 #
                          map registration regs2 @ [ProcessEmit sg2 m2]) s0) =
           invocations s0
             @ zip (map fst regs @ [DefaultExitHandler]) [1 ..< length regs + 2]
             @ zip (map fst regs2 @ [DefaultExitHandler])
                 [length regs + 2 ..< length regs + length regs2 + 3]"
    and "exit_calls (run (map registration regs @ ProcessEmit sg1 m1 #
                          map registration regs2 @ [ProcessEmit sg2 m2]) s0) = []"
    and "run (map registration regs @ [ProcessEmit sg1 m1, ProcessEmit sg1 m1']) s0 =
           run (map registration regs @ [ProcessEmit sg1 m1]) s0"
proof -
  let ?sa = "run (map registration regs) s0"
  let ?s1 = "step (ProcessEmit sg1 m1) ?sa"
  let ?sb = "run (map registration regs2) ?s1"
  let ?s2 = "step (ProcessEmit sg2 m2) ?sb"
  have whole: "run (map registration regs @ ProcessEmit sg1 m1 #
                    map registration regs2 @ [ProcessEmit sg2 m2]) s0 = ?s2"
    by (simp add: run_def)
  from later have regs: "regs \<noteq> []" by auto
  note reg = registrations_after_reset [OF fr, of regs]
  note lis = registrations_bind [OF fr regs]
  from lis have la: "listening_to_exit ?sa" by simp
  obtain k1 where bound1: "filter (\<lambda>p. fst p = sg1) (process_listeners ?sa) = [(sg1, k1)]"
    using lis by (cases sg1) simp_all
  let ?sa' = "?sa\<lparr>process_listeners := remove1 (sg1, k1) (process_listeners ?sa)\<rparr>"
  note fires1 = trigger_fires [OF reg(4) bound1 q1]
  from reg(4) have alive_a': "\<not> exited ?sa'" by (simp add: exited_def)
  from reg(2) have empty_a': "handler_callback_registry ?sa' = []" by simp
  from later have later_a': "\<exists>t \<in> set (tidyExit_listeners ?sa'). completes_later (task_handler t)"
    by (simp add: reg(1)) 
  from emittidyExitEvent_opens [OF alive_a' empty_a' later_a', of "source_label sg1 m1"]
  obtain i where pending1: "slot_pending i ?s1"
    by (auto simp only: fires1)
  then have alive1: "\<not> exited ?s1" by (rule slot_pending_alive)
  note c1 = cycle_completed [OF reg(4) la bound1 q1 alive1]
  have ba: "broadcasts ?sa = broadcasts s0" by (rule registrations_broadcasts)
  have len_a: "length (tidyExit_listeners ?sa) = length regs" by (simp add: reg(1))
  have tasks_a: "map task_handler (tidyExit_listeners ?sa) = map fst regs"
    by (simp only: reg(1) registered_tasks)
  have inv1: "invocations ?s1 =
      invocations s0 @ zip (map fst regs @ [DefaultExitHandler]) [1 ..< length regs + 2]"
    using c1(1) by (simp only: reg(2) reg(3) len_a tasks_a) simp
  have len1: "length (handler_callback_registry ?s1) = length regs + 1"
    using c1(2) by (simp only: reg(2) len_a) simp
  have b1: "broadcasts ?s1 = broadcasts s0 @ [source_label sg1 m1]"
    using c1(4) by (simp only: ba)
  note regb = fold_registration_listeners [OF alive1, of regs2]
  note lisb = registrations_keep_listening [OF alive1 c1(6), of regs2]
  have bb: "broadcasts ?sb = broadcasts ?s1" by (rule registrations_broadcasts)
  have "slot_pending i ?sb = slot_pending i ?s1"
    by (rule slot_pending_cong) (simp_all add: regb)
  with pending1 have pending_b: "slot_pending i ?sb" by simp
  then have alive_b: "\<not> exited ?sb" by (rule slot_pending_alive)
  from lisb have lb: "listening_to_exit ?sb" by simp
  have pl_b: "process_listeners ?sb =
      remove1 (sg1, k1)
        [(Message, next_listener s0), (SIGTERM, Suc (next_listener s0)),
         (SIGINT, Suc (Suc (next_listener s0))), (SIGBREAK, Suc (Suc (Suc (next_listener s0))))]"
    using lisb c1(5) lis by simp
  from ne have "sg2 \<noteq> sg1" by simp
  from other_listener_bound [OF this, of k1 "next_listener s0" "Suc (next_listener s0)"
      "Suc (Suc (next_listener s0))" "Suc (Suc (Suc (next_listener s0)))"]
  obtain k2 where bound2: "filter (\<lambda>p. fst p = sg2) (process_listeners ?sb) = [(sg2, k2)]"
    unfolding pl_b by blast
  let ?sb' = "?sb\<lparr>process_listeners := remove1 (sg2, k2) (process_listeners ?sb)\<rparr>"
  note fires2 = trigger_fires [OF alive_b bound2 q2]
  have "slot_pending i ?sb' = slot_pending i ?sb" by (rule slot_pending_cong) simp_all
  with pending_b have "slot_pending i ?sb'" by simp
  then have "slot_pending i (emittidyExitEvent (source_label sg2 m2) ?sb')"
    by (rule emittidyExitEvent_held)
  then have pending2: "slot_pending i ?s2" by (simp only: fires2)
  then have alive2: "\<not> exited ?s2" by (rule slot_pending_alive)
  note c2 = cycle_completed [OF alive_b lb bound2 q2 alive2]
  have len_b: "length (tidyExit_listeners ?sb) = length regs2"
    using regb c1(3) by simp
  have tasks_b: "map task_handler (tidyExit_listeners ?sb) = map fst regs2"
    using regb c1(3) by (simp add: comp_def)
  have reg_b: "length (handler_callback_registry ?sb) = length regs + 1"
    using regb len1 by simp
  have inv_b: "invocations ?sb = invocations ?s1" using regb by simp
  have range: "[Suc (length regs + 1) ..< length regs + 1 + length regs2 + 2] =
      [length regs + 2 ..< length regs + length regs2 + 3]"
    by (simp add: numeral_3_eq_3 del: upt_Suc)
  show "broadcasts (run (map registration regs @ ProcessEmit sg1 m1 #
                          map registration regs2 @ [ProcessEmit sg2 m2]) s0) =
           broadcasts s0 @ [source_label sg1 m1, source_label sg2 m2]"
    using c2(4) by (simp only: whole bb b1) simp
  show "invocations (run (map registration regs @ ProcessEmit sg1 m1 #
                          map registration regs2 @ [ProcessEmit sg2 m2]) s0) =
           invocations s0
             @ zip (map fst regs @ [DefaultExitHandler]) [1 ..< length regs + 2]
             @ zip (map fst regs2 @ [DefaultExitHandler])
                 [length regs + 2 ..< length regs + length regs2 + 3]"
    using c2(1) by (simp only: whole len_b tasks_b reg_b inv_b inv1 range append_assoc)
  from alive2 show "exit_calls (run (map registration regs @ ProcessEmit sg1 m1 #
                          map registration regs2 @ [ProcessEmit sg2 m2]) s0) = []"
    by (simp only: whole) (simp add: exited_def)
  have "filter (\<lambda>p. fst p = sg1) (process_listeners ?s1) = []"
    using own_listener_unbound [of sg1 "next_listener s0" "Suc (next_listener s0)"
        "Suc (Suc (next_listener s0))" "Suc (Suc (Suc (next_listener s0)))" k1] bound1 c1(5) lis
    by simp
  then have "step (ProcessEmit sg1 m1') ?s1 = ?s1" by (rule trigger_unbound)
  then show "run (map registration regs @ [ProcessEmit sg1 m1, ProcessEmit sg1 m1']) s0 =
           run (map registration regs @ [ProcessEmit sg1 m1]) s0"
    by (simp add: run_def)
qed

section \<open>The claims\<close>

text \<open>
  Claim C1. In every state that a running process can reach from the loaded module,
  \<open>getTimeout\<close> returns the resolution function of the specification applied to the
  running maximum of the timeouts requested since the last reset (which starts at 0) and
  to the global override (unset while it is 0, \<^verbatim>\<open>null\<close> or \<^verbatim>\<open>undefined\<close>):
  \<open>H\<close> if it is set and the override is unset or larger, else the override if it is
  set, else 120000. After a handler with timeout 322 and
  \<open>setMaxTimeout(1231)\<close> it returns 322, and still 322 after
  \<open>setMaxTimeout(null)\<close>; after a handler with timeout 2462 and
  \<open>setMaxTimeout(1231)\<close> it returns 1231.
\<close>

theorem C1_getTimeout_resolution:
  "(\<not> exited (run es (loaded ls thr)) \<longrightarrow>
      getTimeout (run es (loaded ls thr)) =
        Num (resolveTimeout (handler_timeout_max es) (global_override es)))
   \<and> getTimeout (run [CallAddTidyExitHandler h None (Num 322), CallSetMaxTimeout (Num 1231)]
                   (loaded ls thr)) = Num 322
   \<and> getTimeout (run [CallAddTidyExitHandler h None (Num 322), CallSetMaxTimeout (Num 1231),
                      CallSetMaxTimeout Null] (loaded ls thr)) = Num 322
   \<and> getTimeout (run [CallAddTidyExitHandler h None (Num 2462), CallSetMaxTimeout (Num 1231)]
                   (loaded ls thr)) = Num 1231"
proof -
  have general: "getTimeout (run es (loaded ls thr)) =
        Num (resolveTimeout (handler_timeout_max es) (global_override es))"
    if alive: "\<not> exited (run es (loaded ls thr))" for es
    using tracked_timeouts [OF alive] getTimeout_resolve [OF _ handler_timeout_max_nonneg]
    by simp
  have first: "getTimeout (run [CallAddTidyExitHandler h None (Num 322), CallSetMaxTimeout (Num 1231)]
                   (loaded ls thr)) = Num 322"
    by (simp add: run_def getTimeout_def step_max_timeout step_max_handler_timeout js_gt_def)
  have capped: "getTimeout (run [CallAddTidyExitHandler h None (Num 2462), CallSetMaxTimeout (Num 1231)]
                   (loaded ls thr)) = Num 1231"
    by (simp add: run_def getTimeout_def step_max_timeout step_max_handler_timeout js_gt_def)
  have cleared: "getTimeout (run [CallAddTidyExitHandler h None (Num 322), CallSetMaxTimeout (Num 1231),
                      CallSetMaxTimeout Null] (loaded ls thr)) = Num 322"
    by (simp add: run_def getTimeout_def step_max_timeout step_max_handler_timeout js_gt_def)
  show ?thesis
    using general [of es] first capped cleared by simp
qed

theorem C1_getTimeout_resolution_witness:
  "\<not> exited (run [CallAddTidyExitHandler (AppHandler 1) None (Num 2462), CallSetMaxTimeout (Num 1231),
                  CallHookExpressApp 0] loaded0)
   \<and> getTimeout (run [CallAddTidyExitHandler (AppHandler 1) None (Num 2462), CallSetMaxTimeout (Num 1231),
                  CallHookExpressApp 0] loaded0) = Num 1231"
proof -
  let ?es = "[CallAddTidyExitHandler (AppHandler 1) None (Num 2462), CallSetMaxTimeout (Num 1231),
               CallHookExpressApp 0]"
  have alive: "\<not> exited (run ?es loaded0)" by code_simp
  have "resolveTimeout (handler_timeout_max ?es) (global_override ?es) = 1231" by code_simp
  with alive C1_getTimeout_resolution [of ?es "\<lambda>v. []" "[]"] show ?thesis
    by (simp add: loaded0_def)
qed

text \<open>
  Claim C2. The drained check returns true exactly when the subscriber count recorded
  at signal time is at most the length of the completion registry and every counter of
  the registry is at least 1 (for a call without a handler number, in the state it is
  called in; with one, after the increment). When it returns true it has called
  \<open>process.exit(0)\<close>; and when a completion callback takes a running process from not
  drained to drained, \<open>process.exit\<close> has been called, once, with status 0.
\<close>

theorem C2_drained_check:
  "fst (checkHandlersDone handler_number s) = isFullyDrained (snd (checkHandlersDone handler_number s))
   \<and> fst (checkHandlersDone Undefined s) = isFullyDrained s
   \<and> (fst (checkHandlersDone handler_number s) \<longrightarrow>
        exit_calls (snd (checkHandlersDone handler_number s)) = exit_calls s @ [0])
   \<and> (\<not> exited s \<and> \<not> isFullyDrained s \<and> isFullyDrained (done_callback n s) \<longrightarrow>
        exit_calls (done_callback n s) = [0])"
  using checkHandlersDone_result [of handler_number s] done_callback_drained [of s n]
  by (simp add: checkHandlersDone_Undefined checkHandlersDone_exit)

theorem C2_drained_check_witness:
  "\<not> exited pending_shutdown
   \<and> \<not> isFullyDrained pending_shutdown
   \<and> isFullyDrained (done_callback 1 pending_shutdown)
   \<and> exit_calls (done_callback 1 pending_shutdown) = [0]
   \<and> fst (checkHandlersDone (Num 1) pending_shutdown)
   \<and> exit_calls (snd (checkHandlersDone (Num 1) pending_shutdown)) = [0]"
proof -
  have pre: "\<not> exited pending_shutdown \<and> \<not> isFullyDrained pending_shutdown
     \<and> isFullyDrained (done_callback 1 pending_shutdown)
     \<and> fst (checkHandlersDone (Num 1) pending_shutdown)
     \<and> exit_calls pending_shutdown = []"
    by code_simp
  with C2_drained_check [of "Num 1" pending_shutdown 1] show ?thesis by simp
qed

text \<open>
  Claim C3 as stated fails: two distinct triggers run two broadcast cycles. With one
  handler registered that has not completed, \<^verbatim>\<open>SIGTERM\<close> followed by \<^verbatim>\<open>SIGINT\<close>,
  or followed by a \<^verbatim>\<open>shutdown\<close> message, broadcasts twice while the process is
  still running; the second broadcast calls a second safety-net task.
\<close>

theorem C3_two_triggers_counterexample:
  "broadcasts (run [CallAddTidyExitHandler (AppHandler 0) None Undefined,
                    ProcessEmit SIGTERM PUndefined, ProcessEmit SIGINT PUndefined] loaded0)
     = [PStr ''SIGTERM'', PStr ''SIGINT'']
   \<and> broadcasts (run [CallAddTidyExitHandler (AppHandler 0) None Undefined,
                    ProcessEmit SIGTERM PUndefined, ProcessEmit Message (PStr ''shutdown'')] loaded0)
     = [PStr ''SIGTERM'', PStr ''shutdown'']
   \<and> invocations (run [CallAddTidyExitHandler (AppHandler 0) None Undefined,
                    ProcessEmit SIGTERM PUndefined, ProcessEmit SIGINT PUndefined] loaded0)
     = [(AppHandler 0, 1), (DefaultExitHandler, 2), (DefaultExitHandler, 3)]
   \<and> exit_calls (run [CallAddTidyExitHandler (AppHandler 0) None Undefined,
                    ProcessEmit SIGTERM PUndefined, ProcessEmit SIGINT PUndefined] loaded0) = []"
  by code_simp

text \<open>
  Claim C3, as amended. Between two resets each of the four listeners (\<^verbatim>\<open>message\<close>,
  \<^verbatim>\<open>SIGTERM\<close>, \<^verbatim>\<open>SIGINT\<close>, \<^verbatim>\<open>SIGBREAK\<close>) starts at most one broadcast
  cycle, and in every execution \<open>process.exit\<close> is called at most once. Two distinct
  qualifying triggers each run their own cycle: in an execution that, after a reset of a
  running process, registers \<open>N\<close> tasks of which at least one returns without completing,
  receives a qualifying trigger, registers \<open>M\<close> further tasks and receives a second
  qualifying trigger of another name, there are two broadcasts, one per trigger; the first
  calls the \<open>N\<close> tasks and a safety-net task with the slots \<open>1, \<dots>, N + 1\<close>, the second
  calls the \<open>M\<close> tasks registered since the first and a fresh safety-net task with the
  slots \<open>N + 2, \<dots>, N + M + 2\<close>, and \<open>process.exit\<close> is not called. A repetition of
  the first trigger right after it changes nothing.
\<close>

theorem C3_one_cycle_per_trigger:
  "(CallReset \<notin> set es \<longrightarrow>
      length (exit_calls (run es (init (run pre (loaded ls thr))))) \<le> 1
      \<and> (\<forall>sg. length (filter (\<lambda>src. trigger_of src = sg)
                  (drop (length (broadcasts (init (run pre (loaded ls thr)))))
                     (broadcasts (run es (init (run pre (loaded ls thr))))))) \<le> 1))
   \<and> (\<not> exited (run pre (loaded ls thr))
      \<and> (\<exists>r \<in> set regs. completes_later (fst r))
      \<and> sg1 \<noteq> sg2
      \<and> (sg1 \<noteq> Message \<or> loose_eq_shutdown m1)
      \<and> (sg2 \<noteq> Message \<or> loose_eq_shutdown m2) \<longrightarrow>
      broadcasts (run (map registration regs @ ProcessEmit sg1 m1 #
                       map registration regs2 @ [ProcessEmit sg2 m2])
                    (init (run pre (loaded ls thr)))) =
        broadcasts (init (run pre (loaded ls thr)))
          @ [source_label sg1 m1, source_label sg2 m2]
      \<and> invocations (run (map registration regs @ ProcessEmit sg1 m1 #
                          map registration regs2 @ [ProcessEmit sg2 m2])
                       (init (run pre (loaded ls thr)))) =
        invocations (init (run pre (loaded ls thr)))
          @ zip (map fst regs @ [DefaultExitHandler]) [1 ..< length regs + 2]
          @ zip (map fst regs2 @ [DefaultExitHandler])
              [length regs + 2 ..< length regs + length regs2 + 3]
      \<and> exit_calls (run (map registration regs @ ProcessEmit sg1 m1 #
                         map registration regs2 @ [ProcessEmit sg2 m2])
                      (init (run pre (loaded ls thr)))) = []
      \<and> run (map registration regs @ [ProcessEmit sg1 m1, ProcessEmit sg1 m1'])
            (init (run pre (loaded ls thr))) =
        run (map registration regs @ [ProcessEmit sg1 m1]) (init (run pre (loaded ls thr))))"
proof (intro conjI impI allI)
  let ?s0 = "init (run pre (loaded ls thr))"
  have "exits_once (run pre (loaded ls thr))"
    by (rule run_exits_once) (rule loaded_exits_once)
  then have "exits_once ?s0" by (simp add: exits_once_def)
  then have "exits_once (run es ?s0)" by (rule run_exits_once)
  then show "length (exit_calls (run es ?s0)) \<le> 1" by (simp add: exits_once_def)
next
  fix sg
  let ?s0 = "init (run pre (loaded ls thr))"
  assume no_reset: "CallReset \<notin> set es"
  have "listeners_tracked (run pre (loaded ls thr))"
    by (rule run_tracked) (rule loaded_tracked)
  then have "single_fire (length (broadcasts ?s0)) ?s0" by (rule init_single_fire)
  then have "single_fire (length (broadcasts ?s0)) (run es ?s0)"
    using no_reset by (rule run_single_fire)
  then have "cycles (length (broadcasts ?s0)) sg (run es ?s0) \<le> 1"
    by (rule single_fire_cycles)
  then show "length (filter (\<lambda>src. trigger_of src = sg)
      (drop (length (broadcasts ?s0)) (broadcasts (run es ?s0)))) \<le> 1"
    by (simp add: cycles_def)
next
  let ?s0 = "init (run pre (loaded ls thr))"
  assume hyp: "\<not> exited (run pre (loaded ls thr))
      \<and> (\<exists>r \<in> set regs. completes_later (fst r))
      \<and> sg1 \<noteq> sg2
      \<and> (sg1 \<noteq> Message \<or> loose_eq_shutdown m1)
      \<and> (sg2 \<noteq> Message \<or> loose_eq_shutdown m2)"
  then have alive: "\<not> exited (run pre (loaded ls thr))"
    and later: "\<exists>r \<in> set regs. completes_later (fst r)"
    and ne: "sg1 \<noteq> sg2"
    and q1: "sg1 \<noteq> Message \<or> loose_eq_shutdown m1"
    and q2: "sg2 \<noteq> Message \<or> loose_eq_shutdown m2"
    by simp_all
  note two = two_distinct_triggers [OF reachable_reset [OF alive] later ne q1 q2]
  show "broadcasts (run (map registration regs @ ProcessEmit sg1 m1 #
                       map registration regs2 @ [ProcessEmit sg2 m2]) ?s0) =
        broadcasts ?s0 @ [source_label sg1 m1, source_label sg2 m2]"
    by (rule two(1))
  show "invocations (run (map registration regs @ ProcessEmit sg1 m1 #
                          map registration regs2 @ [ProcessEmit sg2 m2]) ?s0) =
        invocations ?s0
          @ zip (map fst regs @ [DefaultExitHandler]) [1 ..< length regs + 2]
          @ zip (map fst regs2 @ [DefaultExitHandler])
              [length regs + 2 ..< length regs + length regs2 + 3]"
    by (rule two(2))
  show "exit_calls (run (map registration regs @ ProcessEmit sg1 m1 #
                         map registration regs2 @ [ProcessEmit sg2 m2]) ?s0) = []"
    by (rule two(3))
  show "run (map registration regs @ [ProcessEmit sg1 m1, ProcessEmit sg1 m1']) ?s0 =
        run (map registration regs @ [ProcessEmit sg1 m1]) ?s0"
    by (rule two(4))
qed

theorem C3_one_cycle_per_trigger_witness:
  "CallReset \<notin> set [CallAddTidyExitHandler (AppHandler 0) None Undefined,
                     ProcessEmit SIGTERM PUndefined, ProcessEmit SIGTERM PUndefined,
                     CallAddTidyExitHandler (AppHandler 1) (Some ''late'') Undefined,
                     ProcessEmit SIGINT PUndefined]
   \<and> length (exit_calls (run [CallAddTidyExitHandler (AppHandler 0) None Undefined,
        ProcessEmit SIGTERM PUndefined, ProcessEmit SIGTERM PUndefined,
        CallAddTidyExitHandler (AppHandler 1) (Some ''late'') Undefined,
        ProcessEmit SIGINT PUndefined] (init (run [] loaded0)))) \<le> 1
   \<and> length (filter (\<lambda>src. trigger_of src = SIGTERM)
        (drop (length (broadcasts (init (run [] loaded0))))
          (broadcasts (run [CallAddTidyExitHandler (AppHandler 0) None Undefined,
             ProcessEmit SIGTERM PUndefined, ProcessEmit SIGTERM PUndefined,
             CallAddTidyExitHandler (AppHandler 1) (Some ''late'') Undefined,
             ProcessEmit SIGINT PUndefined] (init (run [] loaded0)))))) \<le> 1
   \<and> broadcasts (run [CallAddTidyExitHandler (AppHandler 0) None Undefined,
        ProcessEmit SIGTERM PUndefined, ProcessEmit SIGTERM PUndefined,
        CallAddTidyExitHandler (AppHandler 1) (Some ''late'') Undefined,
        ProcessEmit SIGINT PUndefined] (init (run [] loaded0))) =
       [PStr ''SIGTERM'', PStr ''SIGINT'']
   \<and> \<not> exited (run [] loaded0)
   \<and> completes_later (fst (AppHandler 0, None :: string option, Undefined))
   \<and> SIGTERM \<noteq> SIGINT
   \<and> broadcasts (run [CallAddTidyExitHandler (AppHandler 0) None Undefined,
        ProcessEmit SIGTERM PUndefined,
        CallAddTidyExitHandler (AppHandler 1) (Some ''late'') Undefined,
        ProcessEmit SIGINT PUndefined] (init (run [] loaded0))) =
       [PStr ''SIGTERM'', PStr ''SIGINT'']
   \<and> invocations (run [CallAddTidyExitHandler (AppHandler 0) None Undefined,
        ProcessEmit SIGTERM PUndefined,
        CallAddTidyExitHandler (AppHandler 1) (Some ''late'') Undefined,
        ProcessEmit SIGINT PUndefined] (init (run [] loaded0))) =
       [(AppHandler 0, 1), (DefaultExitHandler, 2), (AppHandler 1, 3), (DefaultExitHandler, 4)]
   \<and> exit_calls (run [CallAddTidyExitHandler (AppHandler 0) None Undefined,
        ProcessEmit SIGTERM PUndefined,
        CallAddTidyExitHandler (AppHandler 1) (Some ''late'') Undefined,
        ProcessEmit SIGINT PUndefined] (init (run [] loaded0))) = []
   \<and> broadcasts (run [CallAddTidyExitHandler (AppHandler 0) None Undefined,
        ProcessEmit SIGTERM PUndefined, ProcessEmit SIGTERM PUndefined]
        (init (run [] loaded0))) = [PStr ''SIGTERM'']"
proof -
  let ?es = "[CallAddTidyExitHandler (AppHandler 0) None Undefined,
              ProcessEmit SIGTERM PUndefined, ProcessEmit SIGTERM PUndefined,
              CallAddTidyExitHandler (AppHandler 1) (Some ''late'') Undefined,
              ProcessEmit SIGINT PUndefined]"
  let ?before = "[(AppHandler 0, None :: string option, Undefined)]"
  let ?later = "[(AppHandler 1, Some ''late'', Undefined)]"
  have h: "CallReset \<notin> set ?es" by simp
  have alive: "\<not> exited (run [] loaded0)" by code_simp
  have b0: "broadcasts (run [] loaded0) = []" by code_simp
  have i0: "invocations (run [] loaded0) = []" by code_simp
  have all_run: "broadcasts (run ?es (init (run [] loaded0))) = [PStr ''SIGTERM'', PStr ''SIGINT'']"
    by code_simp
  have first: "broadcasts (run [CallAddTidyExitHandler (AppHandler 0) None Undefined,
      ProcessEmit SIGTERM PUndefined] (init (run [] loaded0))) = [PStr ''SIGTERM'']"
    by code_simp
  note inst = C3_one_cycle_per_trigger [where es = ?es and pre = "[]" and ls = "\<lambda>v. []"
      and thr = "[]" and regs = ?before and ?regs2.0 = ?later and ?sg1.0 = SIGTERM and ?sg2.0 = SIGINT
      and ?m1.0 = PUndefined and ?m2.0 = PUndefined and m1' = PUndefined]
  from inst h have upper:
    "length (exit_calls (run ?es (init (run [] loaded0)))) \<le> 1
     \<and> length (filter (\<lambda>src. trigger_of src = SIGTERM)
          (drop (length (broadcasts (init (run [] loaded0))))
            (broadcasts (run ?es (init (run [] loaded0)))))) \<le> 1"
    by (simp only: loaded0_def) blast
  from inst alive have lower:
    "broadcasts (run (map registration ?before @ ProcessEmit SIGTERM PUndefined #
         map registration ?later @ [ProcessEmit SIGINT PUndefined]) (init (run [] loaded0))) =
       broadcasts (init (run [] loaded0))
         @ [source_label SIGTERM PUndefined, source_label SIGINT PUndefined]
     \<and> invocations (run (map registration ?before @ ProcessEmit SIGTERM PUndefined #
         map registration ?later @ [ProcessEmit SIGINT PUndefined]) (init (run [] loaded0))) =
       invocations (init (run [] loaded0))
         @ zip (map fst ?before @ [DefaultExitHandler]) [1 ..< length ?before + 2]
         @ zip (map fst ?later @ [DefaultExitHandler])
             [length ?before + 2 ..< length ?before + length ?later + 3]
     \<and> exit_calls (run (map registration ?before @ ProcessEmit SIGTERM PUndefined #
         map registration ?later @ [ProcessEmit SIGINT PUndefined]) (init (run [] loaded0))) = []
     \<and> run (map registration ?before @ [ProcessEmit SIGTERM PUndefined, ProcessEmit SIGTERM PUndefined])
           (init (run [] loaded0)) =
       run (map registration ?before @ [ProcessEmit SIGTERM PUndefined]) (init (run [] loaded0))"
    by (simp only: loaded0_def) simp
  from lower first have repeated:
    "broadcasts (run [CallAddTidyExitHandler (AppHandler 0) None Undefined,
        ProcessEmit SIGTERM PUndefined, ProcessEmit SIGTERM PUndefined]
        (init (run [] loaded0))) = [PStr ''SIGTERM'']"
    by simp
  from lower have cycles2:
    "broadcasts (run [CallAddTidyExitHandler (AppHandler 0) None Undefined,
        ProcessEmit SIGTERM PUndefined,
        CallAddTidyExitHandler (AppHandler 1) (Some ''late'') Undefined,
        ProcessEmit SIGINT PUndefined] (init (run [] loaded0))) =
       [PStr ''SIGTERM'', PStr ''SIGINT'']
     \<and> invocations (run [CallAddTidyExitHandler (AppHandler 0) None Undefined,
        ProcessEmit SIGTERM PUndefined,
        CallAddTidyExitHandler (AppHandler 1) (Some ''late'') Undefined,
        ProcessEmit SIGINT PUndefined] (init (run [] loaded0))) =
       [(AppHandler 0, 1), (DefaultExitHandler, 2), (AppHandler 1, 3), (DefaultExitHandler, 4)]
     \<and> exit_calls (run [CallAddTidyExitHandler (AppHandler 0) None Undefined,
        ProcessEmit SIGTERM PUndefined,
        CallAddTidyExitHandler (AppHandler 1) (Some ''late'') Undefined,
        ProcessEmit SIGINT PUndefined] (init (run [] loaded0))) = []"
    by (simp add: b0 i0 source_label_def upt_rec)
  from h upper all_run alive cycles2 repeated show ?thesis
    by simp
qed

text \<open>
  Claim C4 against the code. Neither hook has a \<^verbatim>\<open>return\<close> statement: on the
  loaded module \<open>hookHttpServer(server)\<close> and \<open>hookExpressApp(app)\<close> return
  \<^verbatim>\<open>undefined\<close>, not a handle with \<open>close()\<close>, also for an app that carries no
  exit-state flag yet. The rest of the claim holds there: the first hook of an app
  installs the middleware, sets the flag to false and registers the cleanup task, which
  sets the flag to true at the broadcast; a second hook of the same app changes nothing.
\<close>

theorem C4_hooks_return_undefined:
  "fst (hookHttpServer 0 None loaded0) = ReturnsUndefined
   \<and> fst (hookExpressApp 0 loaded0) = ReturnsUndefined
   \<and> tidy_exit_state (apps loaded0 0) = None
   \<and> tidy_exit_state (apps (snd (hookExpressApp 0 loaded0)) 0) = Some False
   \<and> middleware (apps (snd (hookExpressApp 0 loaded0)) 0) = 1
   \<and> tidyExit_listeners (snd (hookExpressApp 0 loaded0)) = [Task (ExpressAppHandler 0) (Some ''expressApp'')]
   \<and> fst (hookExpressApp 0 (snd (hookExpressApp 0 loaded0))) = ReturnsUndefined
   \<and> tidyExit_listeners (snd (hookExpressApp 0 (snd (hookExpressApp 0 loaded0)))) =
       [Task (ExpressAppHandler 0) (Some ''expressApp'')]
   \<and> tidy_exit_state (apps (run [CallHookExpressApp 0, ProcessEmit SIGTERM PUndefined] loaded0) 0) = Some True"
  by code_simp

text \<open>
  Claim C5. When no timer handle is set, the safety-net task arms exactly one timer,
  for \<open>getTimeout()\<close> milliseconds, and then calls its completion callback; when the
  handle is set it arms no timer and still calls its completion callback. When a timer
  expires on a running process, its callback is the timeout callback; if the drained
  check is false then, it logs and \<open>process.exit(1)\<close> is called, in particular for
  the timer the safety-net task has just armed. Between two
  resets the handle is unset exactly as long as the safety-net task has not been called,
  so it is its first call since the reset that arms the timer. Called by the broadcast
  of a running process, with the check bound on the \<^verbatim>\<open>done\<close> event, the task
  leaves its own slot completed.
\<close>

theorem C5_default_exit_handler:
  "(default_exit_timer s = None \<longrightarrow>
      defaultExitHandler n s =
        done_callback n (s\<lparr>timers := timers s @ [(next_timer s, getTimeout s)],
                           next_timer := Suc (next_timer s),
                           default_exit_timer := Some (next_timer s)\<rparr>)
      \<and> timers (defaultExitHandler n s) = timers s @ [(next_timer s, getTimeout s)])
   \<and> (default_exit_timer s \<noteq> None \<longrightarrow>
      defaultExitHandler n s = done_callback n s
      \<and> timers (defaultExitHandler n s) = timers s)
   \<and> (\<not> fst (checkHandlersDone Undefined s) \<longrightarrow>
      exit_calls (default_exit_timeout s) = exit_calls s @ [1])
   \<and> (CallReset \<notin> set es \<longrightarrow>
      (default_exit_timer (run es (init s0)) = None) =
      (DefaultExitHandler \<notin> fst ` set (drop (length (invocations (init s0)))
                                           (invocations (run es (init s0))))))
   \<and> (\<not> exited s \<and> 0 < done_listeners s \<longrightarrow>
      1 \<le> handler_callback_registry (tidy_exit_listener src (Task DefaultExitHandler desc) s)
            ! length (handler_callback_registry s))
   \<and> (\<not> exited s \<and> t \<in> fst ` set (timers s) \<and> \<not> isFullyDrained s \<longrightarrow>
      timer_expires t s = default_exit_timeout (s\<lparr>timers := filter (\<lambda>p. fst p \<noteq> t) (timers s)\<rparr>)
      \<and> exit_calls (step (TimerExpires t) s) = [1]
      \<and> log_calls (step (TimerExpires t) s) = log_calls s @ [TimedOutWaiting])
   \<and> (default_exit_timer s = None \<and> \<not> exited (defaultExitHandler n s)
        \<and> \<not> isFullyDrained (defaultExitHandler n s) \<longrightarrow>
      exit_calls (step (TimerExpires (next_timer s)) (defaultExitHandler n s)) = [1])"
proof (intro conjI)
  show "default_exit_timer s = None \<longrightarrow>
      defaultExitHandler n s =
        done_callback n (s\<lparr>timers := timers s @ [(next_timer s, getTimeout s)],
                           next_timer := Suc (next_timer s),
                           default_exit_timer := Some (next_timer s)\<rparr>)
      \<and> timers (defaultExitHandler n s) = timers s @ [(next_timer s, getTimeout s)]"
    by (simp add: defaultExitHandler_def setTimeout_def Let_def)
  show "default_exit_timer s \<noteq> None \<longrightarrow>
      defaultExitHandler n s = done_callback n s
      \<and> timers (defaultExitHandler n s) = timers s"
    by (auto simp: defaultExitHandler_def)
  show "\<not> fst (checkHandlersDone Undefined s) \<longrightarrow>
      exit_calls (default_exit_timeout s) = exit_calls s @ [1]"
    by (auto simp: checkHandlersDone_Undefined default_exit_timeout_not_drained process_exit_def
          log_def split: if_splits)
  show "CallReset \<notin> set es \<longrightarrow>
      (default_exit_timer (run es (init s0)) = None) =
      (DefaultExitHandler \<notin> fst ` set (drop (length (invocations (init s0)))
                                           (invocations (run es (init s0)))))"
  proof
    assume "CallReset \<notin> set es"
    with init_armed have "armed_by_default (length (invocations (init s0))) (run es (init s0))"
      by (rule run_armed)
    then show "(default_exit_timer (run es (init s0)) = None) =
      (DefaultExitHandler \<notin> fst ` set (drop (length (invocations (init s0)))
                                           (invocations (run es (init s0)))))"
      by (auto simp: armed_by_default_def)
  qed
  show "\<not> exited s \<and> 0 < done_listeners s \<longrightarrow>
      1 \<le> handler_callback_registry (tidy_exit_listener src (Task DefaultExitHandler desc) s)
            ! length (handler_callback_registry s)"
    using default_task_completes [of s src desc] by blast
  show "\<not> exited s \<and> t \<in> fst ` set (timers s) \<and> \<not> isFullyDrained s \<longrightarrow>
      timer_expires t s = default_exit_timeout (s\<lparr>timers := filter (\<lambda>p. fst p \<noteq> t) (timers s)\<rparr>)
      \<and> exit_calls (step (TimerExpires t) s) = [1]
      \<and> log_calls (step (TimerExpires t) s) = log_calls s @ [TimedOutWaiting]"
    using timer_expires_not_drained [of t s]
    by (auto simp: step_def exited_def timer_expires_def)
  show "default_exit_timer s = None \<and> \<not> exited (defaultExitHandler n s)
        \<and> \<not> isFullyDrained (defaultExitHandler n s) \<longrightarrow>
      exit_calls (step (TimerExpires (next_timer s)) (defaultExitHandler n s)) = [1]"
    using armed_timer_forces_exit [of s n] by blast
qed

theorem C5_default_exit_handler_witness:
  "default_exit_timer loaded0 = None
   \<and> timers (defaultExitHandler 1 loaded0) = [(0, Num 120000)]
   \<and> default_exit_timer pending_shutdown \<noteq> None
   \<and> timers (defaultExitHandler 3 pending_shutdown) = [(0, Num 120000)]
   \<and> \<not> fst (checkHandlersDone Undefined pending_shutdown)
   \<and> exit_calls (default_exit_timeout pending_shutdown) = [1]
   \<and> CallReset \<notin> set [CallAddTidyExitHandler (AppHandler 0) None Undefined]
   \<and> default_exit_timer (run [CallAddTidyExitHandler (AppHandler 0) None Undefined] (init loaded0)) = None
   \<and> \<not> exited (registerDefaultTimeoutHandler loaded0)
   \<and> 0 < done_listeners (registerDefaultTimeoutHandler loaded0)
   \<and> 1 \<le> handler_callback_registry
           (tidy_exit_listener PUndefined (Task DefaultExitHandler None)
              (registerDefaultTimeoutHandler loaded0)) ! 0
   \<and> 0 \<in> fst ` set (timers pending_shutdown)
   \<and> \<not> isFullyDrained pending_shutdown
   \<and> exit_calls (run [CallAddTidyExitHandler (AppHandler 0) None Undefined,
                      ProcessEmit SIGTERM PUndefined, TimerExpires 0] loaded0) = [1]
   \<and> log_calls (run [CallAddTidyExitHandler (AppHandler 0) None Undefined,
                     ProcessEmit SIGTERM PUndefined, TimerExpires 0] loaded0) =
       log_calls pending_shutdown @ [TimedOutWaiting]"
proof -
  have pre: "default_exit_timer loaded0 = None \<and> timers loaded0 = [] \<and> next_timer loaded0 = 0
     \<and> getTimeout loaded0 = Num 120000
     \<and> default_exit_timer pending_shutdown \<noteq> None
     \<and> timers pending_shutdown = [(0, Num 120000)]
     \<and> \<not> fst (checkHandlersDone Undefined pending_shutdown)
     \<and> exit_calls pending_shutdown = []
     \<and> DefaultExitHandler \<notin> fst ` set (drop (length (invocations (init loaded0)))
           (invocations (run [CallAddTidyExitHandler (AppHandler 0) None Undefined] (init loaded0))))
     \<and> \<not> exited (registerDefaultTimeoutHandler loaded0)
     \<and> 0 < done_listeners (registerDefaultTimeoutHandler loaded0)
     \<and> length (handler_callback_registry (registerDefaultTimeoutHandler loaded0)) = 0
     \<and> \<not> exited pending_shutdown
     \<and> 0 \<in> fst ` set (timers pending_shutdown)
     \<and> \<not> isFullyDrained pending_shutdown"
    by code_simp
  have expiry: "run [CallAddTidyExitHandler (AppHandler 0) None Undefined,
                    ProcessEmit SIGTERM PUndefined, TimerExpires 0] loaded0 =
                step (TimerExpires 0) pending_shutdown"
    by (simp add: pending_shutdown_def run_def)
  from pre C5_default_exit_handler [of loaded0 1]
    C5_default_exit_handler [of pending_shutdown 3 "[CallAddTidyExitHandler (AppHandler 0) None Undefined]" loaded0 _ _ 0]
    C5_default_exit_handler [of "registerDefaultTimeoutHandler loaded0" _ _ _ PUndefined None]
  show ?thesis by (simp add: expiry)
qed

text \<open>
  Claim C6 as stated fails for the missing handler number: the call without a handler
  number, which is how the timer runs the check, logs no message.
\<close>

theorem C6_missing_index_counterexample:
  "log_calls (snd (checkHandlersDone Undefined pending_shutdown)) = log_calls pending_shutdown"
  by (simp add: checkHandlersDone_def Let_def process_exit_def split: if_splits)

text \<open>
  Claim C6, as amended. A handler number beyond the length of the completion registry
  logs one message and otherwise behaves as the call without a handler number: no
  counter, length or subscriber count changes, and the drained result and the call of
  \<open>process.exit\<close> are those of the bare check. A missing handler number logs nothing
  and changes neither the registry nor the subscriber count.
\<close>

theorem C6_invalid_handler_number:
  "(int (length (handler_callback_registry s)) < n \<longrightarrow>
      checkHandlersDone (Num n) s =
        (fst (checkHandlersDone Undefined s),
         (snd (checkHandlersDone Undefined s))
           \<lparr>log_calls := log_calls s @ [InvalidCallbackHandlerNumber (Num n)]\<rparr>))
   \<and> log_calls (snd (checkHandlersDone Undefined s)) = log_calls s
   \<and> handler_callback_registry (snd (checkHandlersDone Undefined s)) = handler_callback_registry s
   \<and> registered_handlers_count (snd (checkHandlersDone Undefined s)) = registered_handlers_count s"
  by (auto simp: checkHandlersDone_def Let_def js_le_def log_def process_exit_def)

theorem C6_invalid_handler_number_witness:
  "int (length (handler_callback_registry pending_shutdown)) < 7
   \<and> fst (checkHandlersDone (Num 7) pending_shutdown) = False
   \<and> handler_callback_registry (snd (checkHandlersDone (Num 7) pending_shutdown)) = [0, 1]
   \<and> log_calls (snd (checkHandlersDone (Num 7) pending_shutdown)) =
       log_calls pending_shutdown @ [InvalidCallbackHandlerNumber (Num 7)]"
proof -
  have pre: "int (length (handler_callback_registry pending_shutdown)) < 7
     \<and> \<not> isFullyDrained pending_shutdown
     \<and> handler_callback_registry pending_shutdown = [0, 1]"
    by code_simp
  with C6_invalid_handler_number [of pending_shutdown 7] show ?thesis
    by (simp add: checkHandlersDone_Undefined)
qed

text \<open>
  Claim C7 against the code. The \<^verbatim>\<open>message\<close> listener is bound with
  \<^verbatim>\<open>process.once\<close>: a first message \<^verbatim>\<open>'not-shutdown'\<close> starts no broadcast but
  unbinds the listener, so the \<^verbatim>\<open>'shutdown'\<close> message that follows starts no
  broadcast either, while the same \<^verbatim>\<open>'shutdown'\<close> message alone does. The
  comparison is the loose \<^verbatim>\<open>==\<close>, so the array \<^verbatim>\<open>['shutdown']\<close> starts a
  broadcast as well.
\<close>

theorem C7_message_listener_consumed:
  "process_listeners (run [CallAddTidyExitHandler (AppHandler 1) None Undefined] loaded0) =
     [(Message, 0), (SIGTERM, 1), (SIGINT, 2), (SIGBREAK, 3)]
   \<and> process_listeners (run [CallAddTidyExitHandler (AppHandler 1) None Undefined,
                             ProcessEmit Message (PStr ''not-shutdown'')] loaded0) =
     [(SIGTERM, 1), (SIGINT, 2), (SIGBREAK, 3)]
   \<and> broadcasts (run [CallAddTidyExitHandler (AppHandler 1) None Undefined,
                      ProcessEmit Message (PStr ''not-shutdown''),
                      ProcessEmit Message (PStr ''shutdown'')] loaded0) = []
   \<and> invocations (run [CallAddTidyExitHandler (AppHandler 1) None Undefined,
                      ProcessEmit Message (PStr ''not-shutdown''),
                      ProcessEmit Message (PStr ''shutdown'')] loaded0) = []
   \<and> broadcasts (run [CallAddTidyExitHandler (AppHandler 1) None Undefined,
                      ProcessEmit Message (PStr ''shutdown'')] loaded0) = [PStr ''shutdown'']
   \<and> invocations (run [CallAddTidyExitHandler (AppHandler 1) None Undefined,
                      ProcessEmit Message (PStr ''shutdown'')] loaded0) =
       [(AppHandler 1, 1), (DefaultExitHandler, 2)]
   \<and> broadcasts (run [CallAddTidyExitHandler (AppHandler 1) None Undefined,
                      ProcessEmit Message (PArr [PStr ''shutdown''])] loaded0) = [PArr [PStr ''shutdown'']]"
  by code_simp

text \<open>
  Claim C8. Running the reset twice yields the same state as running it once, from
  any state (the event emitter a reset creates is a new object each time; the state holds
  its listeners, which are none). After a reset of any state the module can reach, no listener of the module
  is bound on \<^verbatim>\<open>process\<close> and no timer is pending; after a reset of any state the
  completion registry is empty, the timer handle is cleared, and \<open>getTimeout\<close> returns
  120000.
\<close>

theorem C8_reset:
  "init (init s) = init s
   \<and> process_listeners (init (run es (loaded ls thr))) = []
   \<and> timers (init (run es (loaded ls thr))) = []
   \<and> handler_callback_registry (init s) = []
   \<and> default_exit_timer (init s) = None
   \<and> getTimeout (init s) = Num 120000"
proof -
  have "listeners_tracked (run es (loaded ls thr))"
    by (rule run_tracked) (rule loaded_tracked)
  then have "process_listeners (init (run es (loaded ls thr))) = []" by (rule init_unbinds)
  moreover
  have "timers_owned (run es (loaded ls thr))"
    by (rule run_owned) (rule loaded_owned)
  then have "timers (init (run es (loaded ls thr))) = []" by (rule init_clears_timers)
  ultimately show ?thesis
    by (simp add: init_idem init_result init_timers getTimeout_def DEFAULT_GRACEFUL_TIMEOUT_def)
qed

theorem C8_reset_witness:
  "process_listeners pending_shutdown \<noteq> []
   \<and> timers pending_shutdown \<noteq> []
   \<and> init (init pending_shutdown) = init pending_shutdown
   \<and> process_listeners (init pending_shutdown) = []
   \<and> timers (init pending_shutdown) = []
   \<and> getTimeout (init pending_shutdown) = Num 120000"
proof -
  have "process_listeners pending_shutdown \<noteq> [] \<and> timers pending_shutdown \<noteq> []"
    by code_simp
  with C8_reset [of pending_shutdown
      "[CallAddTidyExitHandler (AppHandler 0) None Undefined, ProcessEmit SIGTERM PUndefined]"
      "\<lambda>v. []" "[]"]
  show ?thesis by (simp add: pending_shutdown_def loaded0_def)
qed

text \<open>
  Claim C9 as stated fails: a registration assigns no slot. After one call of
  \<^verbatim>\<open>addTidyExitHandler\<close> on the loaded module the completion registry is still
  empty, not of length 1.
\<close>

theorem C9_registration_counterexample:
  "handler_callback_registry
     (run [CallAddTidyExitHandler (AppHandler 1) None Undefined] loaded0) = []"
  by code_simp

text \<open>
  Claim C9, as amended. A cleanup task is assigned its slot index when the shutdown
  broadcast calls it, not when it is registered: a registration leaves the completion
  registry unchanged, so after any number of registrations since the last reset (or since
  the module was loaded) the registry is empty. Provided the tasks return normally, the
  first qualifying trigger after \<open>N > 0\<close> registrations since the last reset of a running
  process calls the tasks in registration order with the slots \<open>1, \<dots>, N\<close>, then the
  safety-net task with slot \<open>N + 1\<close>, and leaves a registry of length \<open>N + 1\<close>, whatever
  happened before the reset. (Every task of the model returns normally: a task that throws
  is not modelled.)
\<close>

theorem C9_slots_assigned_at_broadcast:
  "handler_callback_registry (addTidyExitHandler h desc timeout s) = handler_callback_registry s
   \<and> handler_callback_registry (run (map registration regs) (init s)) = []
   \<and> handler_callback_registry (run (map registration regs) (loaded ls thr)) = []
   \<and> (\<not> exited (run pre (loaded ls thr)) \<longrightarrow>
        handler_callback_registry
          (run (pre @ CallReset # map registration regs) (loaded ls thr)) = [])
   \<and> (\<not> exited (run pre (loaded ls thr)) \<and> regs \<noteq> []
        \<and> (sg \<noteq> Message \<or> loose_eq_shutdown m) \<longrightarrow>
        invocations (run (pre @ CallReset # map registration regs @ [ProcessEmit sg m])
                       (loaded ls thr)) =
          invocations (run pre (loaded ls thr))
            @ zip (map fst regs @ [DefaultExitHandler]) [1 ..< length regs + 2]
        \<and> length (handler_callback_registry
            (run (pre @ CallReset # map registration regs @ [ProcessEmit sg m])
               (loaded ls thr))) = length regs + 1)
   \<and> (regs \<noteq> [] \<and> (sg \<noteq> Message \<or> loose_eq_shutdown m) \<longrightarrow>
        invocations (run (map registration regs @ [ProcessEmit sg m]) (loaded ls thr)) =
          zip (map fst regs @ [DefaultExitHandler]) [1 ..< length regs + 2]
        \<and> length (handler_callback_registry
            (run (map registration regs @ [ProcessEmit sg m]) (loaded ls thr))) = length regs + 1)"
proof (intro conjI impI)
  show "handler_callback_registry (addTidyExitHandler h desc timeout s) =
      handler_callback_registry s"
    by simp
next
  show "handler_callback_registry (run (map registration regs) (init s)) = []"
  proof (cases "exited (init s)")
    case True
    then show ?thesis by (simp add: run_exited init_result)
  next
    case False
    from fold_registration_listeners [OF False, of regs] show ?thesis
      by (simp add: init_result)
  qed
next
  from fold_registration_listeners [OF loaded_not_exited, of regs ls thr]
  show "handler_callback_registry (run (map registration regs) (loaded ls thr)) = []"
    by (simp add: loaded_unbound)
next
  assume alive: "\<not> exited (run pre (loaded ls thr))"
  have split: "run (pre @ CallReset # map registration regs) (loaded ls thr) =
      run (map registration regs) (init (run pre (loaded ls thr)))"
    using alive by (simp add: run_def step_def)
  from registrations_after_reset(2) [OF reachable_reset [OF alive], of regs]
  show "handler_callback_registry
      (run (pre @ CallReset # map registration regs) (loaded ls thr)) = []"
    by (simp only: split)
next
  assume hyp: "\<not> exited (run pre (loaded ls thr)) \<and> regs \<noteq> []
      \<and> (sg \<noteq> Message \<or> loose_eq_shutdown m)"
  then have alive: "\<not> exited (run pre (loaded ls thr))" and regs: "regs \<noteq> []"
    and q: "sg \<noteq> Message \<or> loose_eq_shutdown m" by simp_all
  have split: "run (pre @ CallReset # map registration regs @ [ProcessEmit sg m]) (loaded ls thr) =
      run (map registration regs @ [ProcessEmit sg m]) (init (run pre (loaded ls thr)))"
    using alive by (simp add: run_def step_def)
  note slots = reset_broadcast_slots [OF reachable_reset [OF alive] regs q]
  from slots
  show "invocations (run (pre @ CallReset # map registration regs @ [ProcessEmit sg m])
                       (loaded ls thr)) =
          invocations (run pre (loaded ls thr))
            @ zip (map fst regs @ [DefaultExitHandler]) [1 ..< length regs + 2]"
    by (simp only: split init_invocations)
  from slots
  show "length (handler_callback_registry
            (run (pre @ CallReset # map registration regs @ [ProcessEmit sg m])
               (loaded ls thr))) = length regs + 1"
    by (simp only: split)
next
  assume hyp: "regs \<noteq> [] \<and> (sg \<noteq> Message \<or> loose_eq_shutdown m)"
  with first_broadcast_slots [of regs sg m ls thr]
  show "invocations (run (map registration regs @ [ProcessEmit sg m]) (loaded ls thr)) =
          zip (map fst regs @ [DefaultExitHandler]) [1 ..< length regs + 2]"
    by simp
  from hyp first_broadcast_slots [of regs sg m ls thr]
  show "length (handler_callback_registry
            (run (map registration regs @ [ProcessEmit sg m]) (loaded ls thr))) = length regs + 1"
    by simp
qed

theorem C9_slots_assigned_at_broadcast_witness:
  "[(AppHandler 1, None, Num 10), (AppHandler 0, Some ''db'', Undefined)] \<noteq> []
   \<and> SIGTERM \<noteq> Message
   \<and> invocations (run [CallAddTidyExitHandler (AppHandler 1) None (Num 10),
                       CallAddTidyExitHandler (AppHandler 0) (Some ''db'') Undefined,
                       ProcessEmit SIGTERM PUndefined] loaded0) =
       [(AppHandler 1, 1), (AppHandler 0, 2), (DefaultExitHandler, 3)]
   \<and> length (handler_callback_registry (run [CallAddTidyExitHandler (AppHandler 1) None (Num 10),
                       CallAddTidyExitHandler (AppHandler 0) (Some ''db'') Undefined,
                       ProcessEmit SIGTERM PUndefined] loaded0)) = 3
   \<and> \<not> exited (run [CallAddTidyExitHandler (AppHandler 0) None Undefined,
                     ProcessEmit SIGTERM PUndefined] loaded0)
   \<and> handler_callback_registry
        (run [CallAddTidyExitHandler (AppHandler 0) None Undefined,
              ProcessEmit SIGTERM PUndefined, CallReset,
              CallAddTidyExitHandler (AppHandler 1) None (Num 10),
              CallAddTidyExitHandler (AppHandler 0) (Some ''db'') Undefined] loaded0) = []
   \<and> invocations
        (run [CallAddTidyExitHandler (AppHandler 0) None Undefined,
              ProcessEmit SIGTERM PUndefined, CallReset,
              CallAddTidyExitHandler (AppHandler 1) None (Num 10),
              CallAddTidyExitHandler (AppHandler 0) (Some ''db'') Undefined,
              ProcessEmit SIGINT PUndefined] loaded0) =
       [(AppHandler 0, 1), (DefaultExitHandler, 2),
        (AppHandler 1, 1), (AppHandler 0, 2), (DefaultExitHandler, 3)]
   \<and> length (handler_callback_registry
        (run [CallAddTidyExitHandler (AppHandler 0) None Undefined,
              ProcessEmit SIGTERM PUndefined, CallReset,
              CallAddTidyExitHandler (AppHandler 1) None (Num 10),
              CallAddTidyExitHandler (AppHandler 0) (Some ''db'') Undefined,
              ProcessEmit SIGINT PUndefined] loaded0)) = 3"
proof -
  have alive: "\<not> exited (run [CallAddTidyExitHandler (AppHandler 0) None Undefined,
                     ProcessEmit SIGTERM PUndefined] loaded0)"
    by code_simp
  have before: "invocations (run [CallAddTidyExitHandler (AppHandler 0) None Undefined,
                     ProcessEmit SIGTERM PUndefined] loaded0) =
      [(AppHandler 0, 1), (DefaultExitHandler, 2)]"
    by code_simp
  from C9_slots_assigned_at_broadcast
    [of _ _ _ _ "[(AppHandler 1, None, Num 10), (AppHandler 0, Some ''db'', Undefined)]"
        "\<lambda>v. []" "[]"
        "[CallAddTidyExitHandler (AppHandler 0) None Undefined, ProcessEmit SIGTERM PUndefined]"
        SIGTERM PUndefined]
    C9_slots_assigned_at_broadcast
    [of _ _ _ _ "[(AppHandler 1, None, Num 10), (AppHandler 0, Some ''db'', Undefined)]"
        "\<lambda>v. []" "[]"
        "[CallAddTidyExitHandler (AppHandler 0) None Undefined, ProcessEmit SIGTERM PUndefined]"
        SIGINT PUndefined]
    alive before
  show ?thesis
    by (simp add: loaded0_def [symmetric] upt_rec)
qed

text \<open>
  Claim C10. After \<open>setMaxTimeout(0)\<close>, \<open>getTimeout\<close> returns the running maximum of
  the handler timeouts if a handler has requested one and 120000 otherwise, never 0: the
  same as after \<open>setMaxTimeout(null)\<close> or \<open>setMaxTimeout(undefined)\<close>. After a reset
  the override variable is 0 and \<open>getTimeout\<close> returns 120000.
\<close>

theorem C10_zero_override_is_unset:
  "getTimeout (setMaxTimeout (Num 0) s) =
     (if truthy (max_handler_timeout s) then max_handler_timeout s else Num 120000)
   \<and> getTimeout (setMaxTimeout (Num 0) s) \<noteq> Num 0
   \<and> getTimeout (setMaxTimeout (Num 0) s) = getTimeout (setMaxTimeout Null s)
   \<and> getTimeout (setMaxTimeout (Num 0) s) = getTimeout (setMaxTimeout Undefined s)
   \<and> max_timeout (init s) = Num 0
   \<and> getTimeout (init s) = Num 120000"
  by (cases "max_handler_timeout s")
     (auto simp: getTimeout_def setMaxTimeout_def DEFAULT_GRACEFUL_TIMEOUT_def init_def Let_def
        clearTimeout_def split: option.splits)

theorem C10_zero_override_is_unset_witness:
  "getTimeout (setMaxTimeout (Num 0) (addTidyExitHandler (AppHandler 1) None (Num 322) loaded0)) = Num 322
   \<and> getTimeout (setMaxTimeout (Num 0) loaded0) = Num 120000"
proof -
  have "max_handler_timeout (addTidyExitHandler (AppHandler 1) None (Num 322) loaded0) = Num 322
     \<and> max_handler_timeout loaded0 = Num 0"
    by code_simp
  with C10_zero_override_is_unset [of "addTidyExitHandler (AppHandler 1) None (Num 322) loaded0"]
    C10_zero_override_is_unset [of loaded0]
  show ?thesis by simp
qed

end
